theory Spec2Isabelle
  imports Main "HOL-Library.Multiset"
begin

section \<open>Run-time values\<close>

text \<open>
  \<^verbatim>\<open>getAuthorString(author: any)\<close> and the zod schema inspect values whose shape
  is only known at run time. A value is one of the JSON-like shapes an RSS parser or a
  model response can deliver, together with \<^verbatim>\<open>undefined\<close>. A Number is held as the
  text \<^verbatim>\<open>String(n)\<close> gives for it (\<^verbatim>\<open>0\<close>, \<^verbatim>\<open>NaN\<close>, \<^verbatim>\<open>1.5\<close>, ...), which
  is all the code below ever asks of a number. An object is its prototype, which is
  \<^verbatim>\<open>Object.prototype\<close> for an object literal or a parsed JSON object and none for an
  object made with \<^verbatim>\<open>Object.create(null)\<close> as XML parsers make them, and the list of
  its own properties, each key once. No value is a function.
\<close>

datatype prototype = ObjectPrototype | NullPrototype

datatype jsval =
    JUndefined
  | JNull
  | JBool bool
  | JNum string
  | JStr string
  | JArr "jsval list"
  | JObj prototype "(string \<times> jsval) list"

text \<open>
  What a call can throw: a \<^verbatim>\<open>TypeError\<close> of the language, a Prisma client error with
  its \<^verbatim>\<open>code\<close> (\<^verbatim>\<open>P2002\<close> is the unique-constraint violation, \<^verbatim>\<open>P2025\<close> a record
  that an update did not find), or anything else, such as a lost connection.
\<close>

datatype thrown = TypeError string | PrismaError string | OtherError string

text \<open>Truthiness, as \<^verbatim>\<open>!x\<close> and \<^verbatim>\<open>a && b\<close> test it.\<close>

fun truthy :: "jsval \<Rightarrow> bool" where
  "truthy JUndefined = False"
| "truthy JNull = False"
| "truthy (JBool b) = b"
| "truthy (JNum n) = (n \<noteq> ''0'' \<and> n \<noteq> ''NaN'')"
| "truthy (JStr s) = (s \<noteq> [])"
| "truthy (JArr xs) = True"
| "truthy (JObj p fs) = True"

text \<open>\<^verbatim>\<open>typeof v === "string"\<close>, \<^verbatim>\<open>typeof v === "object"\<close> and \<^verbatim>\<open>Array.isArray(v)\<close>.\<close>

fun typeof_string :: "jsval \<Rightarrow> bool" where
  "typeof_string (JStr s) = True"
| "typeof_string v = False"

fun typeof_object :: "jsval \<Rightarrow> bool" where
  "typeof_object JNull = True"
| "typeof_object (JArr xs) = True"
| "typeof_object (JObj p fs) = True"
| "typeof_object v = False"

fun isArray :: "jsval \<Rightarrow> bool" where
  "isArray (JArr xs) = True"
| "isArray v = False"

text \<open>
  Property access \<^verbatim>\<open>v.k\<close> on a value that is neither \<^verbatim>\<open>null\<close> nor
  \<^verbatim>\<open>undefined\<close> (the callers below have excluded both before they read a property),
  for a key that \<^verbatim>\<open>Object.prototype\<close> and \<^verbatim>\<open>Array.prototype\<close> do not define: the
  code reads \<^verbatim>\<open>name\<close>, and the schema its five keys. For such a key the own properties
  of an object decide, and a property that is not there reads as \<^verbatim>\<open>undefined\<close>.
\<close>

fun getProp :: "jsval \<Rightarrow> string \<Rightarrow> jsval" where
  "getProp (JObj p fs) k = (case map_of fs k of Some v \<Rightarrow> v | None \<Rightarrow> JUndefined)"
| "getProp v k = JUndefined"

text \<open>
  The conversion \<^verbatim>\<open>String(v)\<close> of an object looks for a callable \<^verbatim>\<open>toString\<close> and
  then for a callable \<^verbatim>\<open>valueOf\<close> that gives a primitive value, and throws a
  \<^verbatim>\<open>TypeError\<close> when there is none. An object without a prototype has neither. An
  object with \<^verbatim>\<open>Object.prototype\<close> inherits a \<^verbatim>\<open>toString\<close> that gives
  \<^verbatim>\<open>[object Object]\<close>, unless a property of its own with that key hides it; such a
  property is not a function here, and the inherited \<^verbatim>\<open>valueOf\<close> gives the object
  back, so the conversion throws as well.
\<close>

definition object_toString :: "prototype \<Rightarrow> (string \<times> jsval) list \<Rightarrow> thrown + string" where
  "object_toString p fs =
     (if p = ObjectPrototype \<and> map_of fs ''toString'' = None then Inr ''[object Object]''
      else Inl (TypeError ''Cannot convert object to primitive value''))"

text \<open>
  \<^verbatim>\<open>Array.prototype.join(sep)\<close>: every element is converted with \<^verbatim>\<open>String\<close>, from
  the first to the last, except \<^verbatim>\<open>null\<close> and \<^verbatim>\<open>undefined\<close>, which give the empty
  string; the first conversion that throws ends the join. The conversion of a nested
  array is its own join with a comma.
\<close>

fun join_strings :: "string \<Rightarrow> string list \<Rightarrow> string" where
  "join_strings sep [] = []"
| "join_strings sep [s] = s"
| "join_strings sep (s # t # ss) = s @ sep @ join_strings sep (t # ss)"

fun toString :: "jsval \<Rightarrow> thrown + string"
  and join_element :: "jsval \<Rightarrow> thrown + string"
  and join_elements :: "jsval list \<Rightarrow> thrown + string list" where
  "toString JUndefined = Inr ''undefined''"
| "toString JNull = Inr ''null''"
| "toString (JBool b) = Inr (if b then ''true'' else ''false'')"
| "toString (JNum n) = Inr n"
| "toString (JStr s) = Inr s"
| "toString (JArr xs) =
     (case join_elements xs of Inl e \<Rightarrow> Inl e | Inr ss \<Rightarrow> Inr (join_strings '','' ss))"
| "toString (JObj p fs) = object_toString p fs"
| "join_element JUndefined = Inr []"
| "join_element JNull = Inr []"
| "join_element (JBool b) = toString (JBool b)"
| "join_element (JNum n) = toString (JNum n)"
| "join_element (JStr s) = toString (JStr s)"
| "join_element (JArr xs) =
     (case join_elements xs of Inl e \<Rightarrow> Inl e | Inr ss \<Rightarrow> Inr (join_strings '','' ss))"
| "join_element (JObj p fs) = toString (JObj p fs)"
| "join_elements [] = Inr []"
| "join_elements (x # xs) =
     (case join_element x of
        Inl e \<Rightarrow> Inl e
      | Inr s \<Rightarrow> (case join_elements xs of Inl e \<Rightarrow> Inl e | Inr ss \<Rightarrow> Inr (s # ss)))"

definition join :: "jsval list \<Rightarrow> string \<Rightarrow> thrown + string" where
  "join xs sep =
     (case join_elements xs of Inl e \<Rightarrow> Inl e | Inr ss \<Rightarrow> Inr (join_strings sep ss))"

section \<open>Author normalisation\<close>

text \<open>
  \<^verbatim>\<open>getAuthorString\<close> of \<^verbatim>\<open>src/actions/rss-article.ts\<close>, branch by branch.
  \<^verbatim>\<open>null\<close> as a result is \<open>None\<close>; the one call in it that can throw is the join.
\<close>

definition getAuthorString :: "jsval \<Rightarrow> thrown + string option" where
  "getAuthorString author =
     (if \<not> truthy author then Inr None
      else if typeof_string author then (case author of JStr s \<Rightarrow> Inr (Some s) | _ \<Rightarrow> Inr None)
      else if typeof_object author \<and> truthy (getProp author ''name'') then
        (if isArray (getProp author ''name'') then
           (case getProp author ''name'' of
              JArr xs \<Rightarrow> (case join xs '', '' of Inl e \<Rightarrow> Inl e | Inr s \<Rightarrow> Inr (Some s))
            | _ \<Rightarrow> Inr None)
         else if typeof_string (getProp author ''name'') then
           (case getProp author ''name'' of JStr s \<Rightarrow> Inr (Some s) | _ \<Rightarrow> Inr None)
         else Inr None)
      else Inr None)"

section \<open>Articles and the article store\<close>

text \<open>
  The fields an incoming candidate and a stored article share. The declarations of
  \<^verbatim>\<open>ArticleCreateData\<close> (\<^verbatim>\<open>lib/rss/types\<close>) and of the stored model are not among
  the sources; the fields are the ones \<^verbatim>\<open>createRssArticle\<close> reads and writes. A
  candidate carries \<^verbatim>\<open>author\<close> as delivered by the parser and \<^verbatim>\<open>categories\<close>
  possibly missing; a stored article carries the normalised author and a list of
  categories. A \<^verbatim>\<open>Date\<close> is its number of milliseconds since the epoch.
\<close>

record ('author, 'categories) articleData =
  feedId :: string
  guid :: string
  title :: string
  link :: string
  content :: "string option"
  summary :: "string option"
  pubDate :: int
  author :: 'author
  categories :: 'categories
  imageUrl :: "string option"

type_synonym articleCreateData = "(jsval, string list option) articleData"

text \<open>
  The \<^verbatim>\<open>data\<close> object handed to \<^verbatim>\<open>prisma.rssArticle.create\<close>, and the stored
  document: the same fields and the identifier the store assigns (the field \<^verbatim>\<open>id\<close>,
  here \<open>article_id\<close>).
\<close>

record rssArticleCreateInput = "(string option, string list) articleData" +
  sourceFeedIds :: "string list"

record rssArticle = rssArticleCreateInput +
  article_id :: nat

text \<open>
  Modelled from the spec: \<^verbatim>\<open>isPrismaError\<close> of \<^verbatim>\<open>lib/database/error-handler\<close> is
  not among the sources. The spec classifies a duplicate-key conflict raised by the store
  apart from every other failure, so the guard holds of the errors the store raises with a
  code, and \<^verbatim>\<open>error.code\<close> reads that code.
\<close>

fun isPrismaError :: "thrown \<Rightarrow> bool" where
  "isPrismaError (PrismaError c) = True"
| "isPrismaError (TypeError m) = False"
| "isPrismaError (OtherError m) = False"

fun error_code :: "thrown \<Rightarrow> string option" where
  "error_code (PrismaError c) = Some c"
| "error_code (TypeError m) = None"
| "error_code (OtherError m) = None"

text \<open>
  The server action awaits the store several times, and between two awaits the rest of the
  world goes on. The state is therefore the collection together with what the environment
  is going to do at each of the coming store calls, one event per call: nothing, make the
  call fail, or let another writer's create land first. An empty schedule is a store
  that nobody else touches and that never fails.
\<close>

datatype event = Quiet | Fails thrown | OtherCreates rssArticleCreateInput

record world =
  rows :: "rssArticle list"
  pending :: "event list"

text \<open>
  The collection has a unique index on \<^verbatim>\<open>guid\<close> (\<^verbatim>\<open>findUnique\<close> by guid needs one):
  an insert of a guid that is already stored is refused. The new document goes after the
  stored ones and gets the next identifier; nothing is ever deleted.
\<close>

definition has_guid :: "string \<Rightarrow> rssArticle list \<Rightarrow> bool" where
  "has_guid g rs = (find (\<lambda>a. guid a = g) rs \<noteq> None)"

definition new_document :: "rssArticleCreateInput \<Rightarrow> rssArticle list \<Rightarrow> rssArticle" where
  "new_document d rs = rssArticleCreateInput.extend d (rssArticle.fields (length rs))"

definition insert_document :: "rssArticleCreateInput \<Rightarrow> rssArticle list \<Rightarrow> rssArticle list option" where
  "insert_document d rs =
     (if has_guid (guid d) rs then None else Some (rs @ [new_document d rs]))"

fun push_sourceFeedId :: "string \<Rightarrow> string \<Rightarrow> rssArticle list \<Rightarrow> rssArticle list" where
  "push_sourceFeedId g f [] = []"
| "push_sourceFeedId g f (a # rs) =
     (if guid a = g then a\<lparr>sourceFeedIds := sourceFeedIds a @ [f]\<rparr> # rs
      else a # push_sourceFeedId g f rs)"

text \<open>
  A store call is a function of the state that returns or throws, and leaves a state.
  \<open>await\<close> is the sequencing of \<^verbatim>\<open>await\<close>: a throw ends the function.
\<close>

type_synonym 'a action = "world \<Rightarrow> (thrown + 'a) \<times> world"

definition resolve :: "'a \<Rightarrow> 'a action" where
  "resolve x w = (Inr x, w)"

definition throw :: "thrown \<Rightarrow> 'a action" where
  "throw e w = (Inl e, w)"

definition await :: "'a action \<Rightarrow> ('a \<Rightarrow> 'b action) \<Rightarrow> 'b action" where
  "await m k w = (case m w of (Inl e, w') \<Rightarrow> (Inl e, w') | (Inr x, w') \<Rightarrow> k x w')"

text \<open>The environment's move before a store call takes effect.\<close>

definition environment :: "world \<Rightarrow> thrown option \<times> world" where
  "environment w =
     (case pending w of
        [] \<Rightarrow> (None, w)
      | Quiet # es \<Rightarrow> (None, w\<lparr>pending := es\<rparr>)
      | Fails e # es \<Rightarrow> (Some e, w\<lparr>pending := es\<rparr>)
      | OtherCreates d # es \<Rightarrow>
          (None, w\<lparr>rows := (case insert_document d (rows w) of Some rs \<Rightarrow> rs | None \<Rightarrow> rows w),
                    pending := es\<rparr>))"

definition store_call :: "(rssArticle list \<Rightarrow> (thrown + 'a) \<times> rssArticle list) \<Rightarrow> 'a action" where
  "store_call f w =
     (case environment w of
        (Some e, w') \<Rightarrow> (Inl e, w')
      | (None, w') \<Rightarrow> (case f (rows w') of (r, rs) \<Rightarrow> (r, w'\<lparr>rows := rs\<rparr>)))"

text \<open>The four calls of \<^verbatim>\<open>prisma.rssArticle\<close> the actions make.\<close>

definition findUnique_select :: "string \<Rightarrow> (nat \<times> string list) option action" where
  \<comment> \<open>\<^verbatim>\<open>findUnique({where: {guid}, select: {id: true, sourceFeedIds: true}})\<close>\<close>
  "findUnique_select g =
     store_call (\<lambda>rs. (Inr (map_option (\<lambda>a. (article_id a, sourceFeedIds a))
                                (find (\<lambda>a. guid a = g) rs)), rs))"

definition findUnique :: "string \<Rightarrow> rssArticle option action" where
  \<comment> \<open>\<^verbatim>\<open>findUnique({where: {guid}})\<close>\<close>
  "findUnique g = store_call (\<lambda>rs. (Inr (find (\<lambda>a. guid a = g) rs), rs))"

definition update_push :: "string \<Rightarrow> string \<Rightarrow> rssArticle action" where
  \<comment> \<open>\<^verbatim>\<open>update({where: {guid}, data: {sourceFeedIds: {push: feedId}}})\<close>\<close>
  "update_push g f =
     store_call (\<lambda>rs.
       (case find (\<lambda>a. guid a = g) (push_sourceFeedId g f rs) of
          None \<Rightarrow> (Inl (PrismaError ''P2025''), rs)
        | Some a \<Rightarrow> (Inr a, push_sourceFeedId g f rs)))"

definition create :: "rssArticleCreateInput \<Rightarrow> rssArticle action" where
  \<comment> \<open>\<^verbatim>\<open>create({data})\<close>\<close>
  "create d =
     store_call (\<lambda>rs.
       (case insert_document d rs of
          None \<Rightarrow> (Inl (PrismaError ''P2002''), rs)
        | Some rs' \<Rightarrow> (Inr (new_document d rs), rs')))"

text \<open>
  Modelled from the spec: \<^verbatim>\<open>wrapDatabaseOperation\<close> of
  \<^verbatim>\<open>lib/database/error-handler\<close> is not among the sources. The spec lets the result of
  the wrapped operation reach the caller, and lets a failure of the store reach the batch
  loop with its kind, so the wrapper runs the operation and passes on what it returns or
  throws; the second argument names the operation.
\<close>

definition wrapDatabaseOperation :: "'a action \<Rightarrow> string \<Rightarrow> 'a action" where
  "wrapDatabaseOperation operation context = operation"

section \<open>Ingestion\<close>

text \<open>
  \<^verbatim>\<open>createRssArticle\<close>. The function runs up to its first \<^verbatim>\<open>await\<close>, the lookup,
  and \<open>after_lookup\<close> is what it does once the lookup has returned \<open>existing\<close>;
  the two are named apart because another call can run between them. In the create
  branch the \<^verbatim>\<open>data\<close> object is built before the store is called, so a throw of
  \<^verbatim>\<open>getAuthorString\<close> ends the function without a call; \<^verbatim>\<open>a ?? b\<close> and
  \<^verbatim>\<open>a || []\<close> are the two inner case expressions.
\<close>

definition after_lookup ::
  "articleCreateData \<Rightarrow> (nat \<times> string list) option \<Rightarrow> rssArticle option action" where
  "after_lookup data existing =
     (case existing of
        Some (existing_id, existing_sourceFeedIds) \<Rightarrow>
          if feedId data \<notin> set existing_sourceFeedIds then
            await (update_push (guid data) (feedId data)) (\<lambda>a. resolve (Some a))
          else findUnique (guid data)
      | None \<Rightarrow>
          (case getAuthorString (author data) of
             Inl e \<Rightarrow> throw e
           | Inr normalised \<Rightarrow>
               await (create
                 \<lparr>feedId = feedId data,
                  guid = guid data,
                  title = title data,
                  link = link data,
                  content = content data,
                  summary = summary data,
                  pubDate = pubDate data,
                  author = Some (case normalised of Some s \<Rightarrow> s | None \<Rightarrow> ''Demo user''),
                  categories = (case categories data of Some cs \<Rightarrow> cs | None \<Rightarrow> []),
                  imageUrl = imageUrl data,
                  sourceFeedIds = [feedId data]\<rparr>) (\<lambda>a. resolve (Some a))))"

definition createRssArticle :: "articleCreateData \<Rightarrow> rssArticle option action" where
  "createRssArticle data =
     wrapDatabaseOperation
       (await (findUnique_select (guid data)) (after_lookup data))
       ''create RSS article''"

text \<open>
  \<^verbatim>\<open>bulkCreateRssArticles\<close>: the loop body is \<open>bulk_step\<close>, the state of the loop the
  counters, what \<^verbatim>\<open>console.error\<close> has printed so far, and the store.
\<close>

record bulkOperationResult =
  created :: nat
  skipped :: nat
  errors :: nat

type_synonym console = "(string \<times> thrown) list"

definition bulk_step ::
  "articleCreateData \<Rightarrow> bulkOperationResult \<times> console \<times> world \<Rightarrow>
   bulkOperationResult \<times> console \<times> world" where
  "bulk_step article s =
     (case s of (results, out, w) \<Rightarrow>
        (case createRssArticle article w of
           (Inr a, w') \<Rightarrow> (results\<lparr>created := created results + 1\<rparr>, out, w')
         | (Inl error, w') \<Rightarrow>
             if isPrismaError error \<and> error_code error = Some ''P2002'' then
               (results\<lparr>skipped := skipped results + 1\<rparr>, out, w')
             else
               (results\<lparr>errors := errors results + 1\<rparr>,
                out @ [(''Failed to create article '' @ guid article @ '':'', error)], w')))"

fun bulk_loop ::
  "articleCreateData list \<Rightarrow> bulkOperationResult \<times> console \<times> world \<Rightarrow>
   bulkOperationResult \<times> console \<times> world" where
  "bulk_loop [] s = s"
| "bulk_loop (article # rest) s = bulk_loop rest (bulk_step article s)"

definition bulkCreateRssArticles ::
  "articleCreateData list \<Rightarrow> world \<Rightarrow> bulkOperationResult \<times> console \<times> world" where
  "bulkCreateRssArticles articles w =
     bulk_loop articles (\<lparr>created = 0, skipped = 0, errors = 0\<rparr>, [], w)"

section \<open>Retrieval\<close>

text \<open>
  The \<^verbatim>\<open>where\<close> clause of \<^verbatim>\<open>getArticlesByFeedsAndDateRange\<close>: \<^verbatim>\<open>in\<close> is membership,
  \<^verbatim>\<open>hasSome\<close> holds when the stored array has one of the given values at least, and the
  two bounds on \<^verbatim>\<open>pubDate\<close> are \<^verbatim>\<open>gte\<close> and \<^verbatim>\<open>lte\<close>.
\<close>

definition hasSome :: "string list \<Rightarrow> string list \<Rightarrow> bool" where
  "hasSome stored values = list_ex (\<lambda>v. v \<in> set stored) values"

definition where_clause :: "string list \<Rightarrow> int \<Rightarrow> int \<Rightarrow> rssArticle \<Rightarrow> bool" where
  "where_clause feedIds startDate endDate a =
     ((feedId a \<in> set feedIds \<or> hasSome (sourceFeedIds a) feedIds) \<and>
      (startDate \<le> pubDate a \<and> pubDate a \<le> endDate))"

text \<open>
  Modelled from the spec: the constant \<^verbatim>\<open>ARTICLE_ORDER_BY_DATE_DESC\<close> of
  \<^verbatim>\<open>lib/database/prisma-helpers\<close> is not among the sources. The spec orders the result
  descending by \<^verbatim>\<open>pubDate\<close>, with ties left in the store's own order.
\<close>

definition ARTICLE_ORDER_BY_DATE_DESC :: "rssArticle list \<Rightarrow> rssArticle list" where
  "ARTICLE_ORDER_BY_DATE_DESC rs = sort_key (\<lambda>a. - pubDate a) rs"

text \<open>
  \<^verbatim>\<open>take\<close>: a positive count is taken from the start of the ordered list, a negative one
  from its end.
\<close>

definition take_count :: "int \<Rightarrow> 'a list \<Rightarrow> 'a list" where
  "take_count n xs = (if 0 \<le> n then take (nat n) xs else drop (length xs - nat (- n)) xs)"

text \<open>
  \<^verbatim>\<open>findMany\<close>. The constant \<^verbatim>\<open>ARTICLE_WITH_FEED_INCLUDE\<close> is not among the sources
  either: what it adds to each article from its feed is the parameter \<open>include\<close>.
\<close>

record 'feed articleWithFeed =
  article :: rssArticle
  feed :: 'feed

definition findMany ::
  "(rssArticle \<Rightarrow> bool) \<Rightarrow> (rssArticle \<Rightarrow> 'feed) \<Rightarrow> (rssArticle list \<Rightarrow> rssArticle list) \<Rightarrow>
   int \<Rightarrow> 'feed articleWithFeed list action" where
  "findMany wh include orderBy n =
     store_call (\<lambda>rs.
       (Inr (map (\<lambda>a. \<lparr>article = a, feed = include a\<rparr>) (take_count n (orderBy (filter wh rs)))),
        rs))"

text \<open>
  \<^verbatim>\<open>{...article, sourceCount: article.sourceFeedIds.length}\<close>: the element of the result
  is the found article, its feed, and the count.
\<close>

record 'feed scoredArticle = "'feed articleWithFeed" +
  sourceCount :: nat

definition getArticlesByFeedsAndDateRange ::
  "(rssArticle \<Rightarrow> 'feed) \<Rightarrow> string list \<Rightarrow> int \<Rightarrow> int \<Rightarrow> int option \<Rightarrow>
   'feed scoredArticle list action" where
  "getArticlesByFeedsAndDateRange ARTICLE_WITH_FEED_INCLUDE feedIds startDate endDate limit =
     wrapDatabaseOperation
       (await (findMany (where_clause feedIds startDate endDate) ARTICLE_WITH_FEED_INCLUDE
                 ARTICLE_ORDER_BY_DATE_DESC (case limit of None \<Rightarrow> 100 | Some n \<Rightarrow> n))
          (\<lambda>articles. resolve
             (map (\<lambda>a. \<lparr>article = article a, feed = feed a,
                        sourceCount = length (sourceFeedIds (article a))\<rparr>) articles)))
       ''fetch articles by feeds and date range''"

section \<open>The newsletter schema\<close>

text \<open>
  \<^verbatim>\<open>NewsletterSchema\<close> as the parser zod builds from it: the parsed newsletter, or
  \<open>None\<close> when the value has an issue. \<^verbatim>\<open>z.string()\<close> takes strings only,
  \<^verbatim>\<open>z.array(s)\<close> arrays whose every element \<^verbatim>\<open>s\<close> takes, \<^verbatim>\<open>.length(n)\<close> arrays of
  exactly \<^verbatim>\<open>n\<close> elements, \<^verbatim>\<open>.optional()\<close> also \<^verbatim>\<open>undefined\<close>, and \<^verbatim>\<open>z.object\<close>
  objects, whose other keys it drops.
\<close>

record generatedNewsletter =
  suggestedTitles :: "string list"
  suggestedSubjectLines :: "string list"
  body :: string
  topAnnouncements :: "string list"
  additionalInfo :: "string option"

fun z_string :: "jsval \<Rightarrow> string option" where
  "z_string (JStr s) = Some s"
| "z_string v = None"

fun z_all :: "('a \<Rightarrow> 'b option) \<Rightarrow> 'a list \<Rightarrow> 'b list option" where
  "z_all s [] = Some []"
| "z_all s (x # xs) =
     (case s x of None \<Rightarrow> None
      | Some y \<Rightarrow> (case z_all s xs of None \<Rightarrow> None | Some ys \<Rightarrow> Some (y # ys)))"

fun z_array :: "(jsval \<Rightarrow> 'b option) \<Rightarrow> jsval \<Rightarrow> 'b list option" where
  "z_array s (JArr xs) = z_all s xs"
| "z_array s v = None"

definition z_length :: "nat \<Rightarrow> (jsval \<Rightarrow> 'b list option) \<Rightarrow> jsval \<Rightarrow> 'b list option" where
  "z_length n s v =
     (case s v of None \<Rightarrow> None | Some ys \<Rightarrow> if length ys = n then Some ys else None)"

fun z_optional :: "(jsval \<Rightarrow> 'b option) \<Rightarrow> jsval \<Rightarrow> 'b option option" where
  "z_optional s JUndefined = Some None"
| "z_optional s v = map_option Some (s v)"

fun NewsletterSchema :: "jsval \<Rightarrow> generatedNewsletter option" where
  "NewsletterSchema (JObj p fs) =
     (case (z_length 5 (z_array z_string) (getProp (JObj p fs) ''suggestedTitles''),
            z_length 5 (z_array z_string) (getProp (JObj p fs) ''suggestedSubjectLines''),
            z_string (getProp (JObj p fs) ''body''),
            z_length 5 (z_array z_string) (getProp (JObj p fs) ''topAnnouncements''),
            z_optional z_string (getProp (JObj p fs) ''additionalInfo'')) of
        (Some ts, Some ls, Some b, Some as, Some i) \<Rightarrow>
          Some \<lparr>suggestedTitles = ts, suggestedSubjectLines = ls, body = b,
                topAnnouncements = as, additionalInfo = i\<rparr>
      | _ \<Rightarrow> None)"
| "NewsletterSchema v = None"

text \<open>
  Modelled from the spec: \<^verbatim>\<open>saveGeneratedNewsletter\<close> is not among the sources, only
  the schema is. The spec has it fail with a validation error when a fixed-length array
  of the newsletter does not have exactly five elements at save time, before anything
  reaches the store, and hand the newsletter to the store otherwise. The store of
  newsletters is the list of the saved ones, with the request each was saved for.
\<close>

datatype save_error = ValidationError

record savedNewsletter =
  newsletter :: generatedNewsletter
  saved_feedIds :: "string list"
  saved_startDate :: int
  saved_endDate :: int
  saved_userInput :: "string option"

definition saveGeneratedNewsletter ::
  "jsval \<Rightarrow> string list \<Rightarrow> int \<Rightarrow> int \<Rightarrow> string option \<Rightarrow> savedNewsletter list \<Rightarrow>
   (save_error + savedNewsletter) \<times> savedNewsletter list" where
  "saveGeneratedNewsletter nl feedIds startDate endDate userInput store =
     (case NewsletterSchema nl of
        None \<Rightarrow> (Inl ValidationError, store)
      | Some n \<Rightarrow>
          (let saved = \<lparr>newsletter = n, saved_feedIds = feedIds, saved_startDate = startDate,
                        saved_endDate = endDate, saved_userInput = userInput\<rparr>
           in (Inr saved, store @ [saved])))"

section \<open>Notions the properties are stated with\<close>

text \<open>
  The calls a batch makes, in order: each candidate with what its call returned or threw,
  every call starting from the state the one before it left.
\<close>

fun attempts ::
  "articleCreateData list \<Rightarrow> world \<Rightarrow> (articleCreateData \<times> (thrown + rssArticle option)) list" where
  "attempts [] w = []"
| "attempts (a # as) w =
     (a, fst (createRssArticle a w)) # attempts as (snd (createRssArticle a w))"

fun returned :: "'c \<times> (thrown + 'a) \<Rightarrow> bool" where
  "returned (c, Inr x) = True"
| "returned (c, Inl e) = False"

fun duplicate_key :: "'c \<times> (thrown + 'a) \<Rightarrow> bool" where
  "duplicate_key (c, Inl (PrismaError k)) = (k = ''P2002'')"
| "duplicate_key (c, r) = False"

fun other_failure :: "'c \<times> (thrown + 'a) \<Rightarrow> bool" where
  "other_failure (c, Inl (PrismaError k)) = (k \<noteq> ''P2002'')"
| "other_failure (c, Inl (TypeError m)) = True"
| "other_failure (c, Inl (OtherError m)) = True"
| "other_failure (c, Inr x) = False"

fun failure_line :: "articleCreateData \<times> (thrown + 'a) \<Rightarrow> (string \<times> thrown) list" where
  "failure_line (c, Inl e) = [(''Failed to create article '' @ guid c @ '':'', e)]"
| "failure_line (c, Inr x) = []"

text \<open>
  The document a first observation stores: the \<^verbatim>\<open>data\<close> object of the create call in
  \<^verbatim>\<open>createRssArticle\<close> for a candidate whose author the normaliser has turned into
  \<open>normalised\<close>, with the identifier the store gives it.
\<close>

definition create_data :: "articleCreateData \<Rightarrow> string option \<Rightarrow> rssArticleCreateInput" where
  "create_data d normalised =
     \<lparr>feedId = feedId d, guid = guid d, title = title d, link = link d,
      content = content d, summary = summary d, pubDate = pubDate d,
      author = Some (case normalised of Some s \<Rightarrow> s | None \<Rightarrow> ''Demo user''),
      categories = (case categories d of Some cs \<Rightarrow> cs | None \<Rightarrow> []),
      imageUrl = imageUrl d, sourceFeedIds = [feedId d]\<rparr>"

definition first_observation ::
  "articleCreateData \<Rightarrow> string option \<Rightarrow> rssArticle list \<Rightarrow> rssArticle" where
  "first_observation d normalised rs = new_document (create_data d normalised) rs"


text \<open>
  Two calls of \<^verbatim>\<open>createRssArticle\<close> that run at the same time. Each is suspended at
  its \<^verbatim>\<open>await\<close>s, so each makes its store calls one at a time, and the store takes
  the calls of the two in some order: a schedule says whose turn it is. A call has not
  started, or has its lookup back, or has returned or thrown. A turn of a call that is
  over changes nothing.
\<close>

datatype turn = FirstCall | SecondCall

datatype progress =
    NotStarted
  | LookedUp "(nat \<times> string list) option"
  | Settled "thrown + rssArticle option"

definition advance :: "articleCreateData \<Rightarrow> progress \<Rightarrow> world \<Rightarrow> progress \<times> world" where
  "advance data p w =
     (case p of
        NotStarted \<Rightarrow>
          (case findUnique_select (guid data) w of
             (Inl e, w') \<Rightarrow> (Settled (Inl e), w')
           | (Inr existing, w') \<Rightarrow> (LookedUp existing, w'))
      | LookedUp existing \<Rightarrow>
          (case after_lookup data existing w of (r, w') \<Rightarrow> (Settled r, w'))
      | Settled r \<Rightarrow> (Settled r, w))"

fun interleaved ::
  "turn list \<Rightarrow> articleCreateData \<Rightarrow> articleCreateData \<Rightarrow>
   progress \<times> progress \<times> world \<Rightarrow> progress \<times> progress \<times> world" where
  "interleaved [] d1 d2 s = s"
| "interleaved (FirstCall # ts) d1 d2 (p1, p2, w) =
     interleaved ts d1 d2 (fst (advance d1 p1 w), p2, snd (advance d1 p1 w))"
| "interleaved (SecondCall # ts) d1 d2 (p1, p2, w) =
     interleaved ts d1 d2 (p1, fst (advance d2 p2 w), snd (advance d2 p2 w))"

fun rank :: "progress \<Rightarrow> nat" where
  "rank NotStarted = 0"
| "rank (LookedUp existing) = 1"
| "rank (Settled r) = 2"

text \<open>
  What holds between the steps of two racing calls that add the feeds \<open>A\<close> and \<open>B\<close> to
  the article \<open>x\<close>: the stored article is \<open>x\<close> with the feeds pushed so far after its
  own, and a call has pushed its feed exactly when it is over.
\<close>

fun in_step :: "string \<Rightarrow> progress \<Rightarrow> string list \<Rightarrow> bool" where
  "in_step F NotStarted pushed = (F \<notin> set pushed)"
| "in_step F (LookedUp None) pushed = False"
| "in_step F (LookedUp (Some (i, l))) pushed = (F \<notin> set pushed \<and> F \<notin> set l)"
| "in_step F (Settled (Inl e)) pushed = False"
| "in_step F (Settled (Inr a)) pushed = (F \<in> set pushed)"

definition racing ::
  "rssArticle \<Rightarrow> string \<Rightarrow> string \<Rightarrow> progress \<times> progress \<times> world \<Rightarrow> string list \<Rightarrow> bool" where
  "racing x A B s pushed =
     (case s of (p1, p2, w) \<Rightarrow>
        pending w = [] \<and>
        find (\<lambda>a. guid a = guid x) (rows w) = Some (x\<lparr>sourceFeedIds := sourceFeedIds x @ pushed\<rparr>) \<and>
        in_step A p1 pushed \<and> in_step B p2 pushed \<and>
        pushed \<in> {[], [A], [B], [A, B], [B, A]})"

text \<open>
  The selection predicate in the words of the specification: the primary feed is one of
  the given feeds or the source feeds meet them, and the publication date is in the
  closed window.
\<close>

definition selection_predicate :: "string list \<Rightarrow> int \<Rightarrow> int \<Rightarrow> rssArticle \<Rightarrow> bool" where
  "selection_predicate feedIds startDate endDate a =
     ((feedId a \<in> set feedIds \<or> set (sourceFeedIds a) \<inter> set feedIds \<noteq> {}) \<and>
      pubDate a \<in> {startDate..endDate})"

text \<open>
  The run-time value of a newsletter of the static type \<^verbatim>\<open>GeneratedNewsletter\<close>, whose
  arrays the type does not bound.
\<close>

definition runtime_value :: "generatedNewsletter \<Rightarrow> jsval" where
  "runtime_value n =
     JObj ObjectPrototype
          [(''suggestedTitles'', JArr (map JStr (suggestedTitles n))),
           (''suggestedSubjectLines'', JArr (map JStr (suggestedSubjectLines n))),
           (''body'', JStr (body n)),
           (''topAnnouncements'', JArr (map JStr (topAnnouncements n))),
           (''additionalInfo'',
              (case additionalInfo n of None \<Rightarrow> JUndefined | Some i \<Rightarrow> JStr i))]"

subsection \<open>Concrete inputs\<close>

text \<open>
  The scenario of the specification: the article \<^verbatim>\<open>abc\<close> seen through feed \<^verbatim>\<open>f1\<close>
  and then, with another title, through feed \<^verbatim>\<open>f2\<close>.
\<close>

definition seen_through_f1 :: articleCreateData where
  "seen_through_f1 =
     \<lparr>feedId = ''f1'', guid = ''abc'', title = ''X'', link = ''https://a.example/abc'',
      content = Some ''text'', summary = None, pubDate = 1000,
      author = JObj ObjectPrototype [(''name'', JArr [JStr ''Ann'', JStr ''Bob''])],
      categories = None, imageUrl = None\<rparr>"

definition seen_through_f2 :: articleCreateData where
  "seen_through_f2 =
     \<lparr>feedId = ''f2'', guid = ''abc'', title = ''Y'', link = ''https://b.example/abc'',
      content = None, summary = Some ''short'', pubDate = 2000,
      author = JNull, categories = Some [''news''], imageUrl = None\<rparr>"

definition empty_store :: world where
  "empty_store = \<lparr>rows = [], pending = []\<rparr>"

text \<open>
  A store in which another writer's create of \<^verbatim>\<open>abc\<close> lands between the lookup and
  the create of the first call, and the connection is lost at the lookup of the second.
\<close>

definition other_writer :: rssArticleCreateInput where
  "other_writer =
     \<lparr>feedId = ''f9'', guid = ''abc'', title = ''Z'', link = ''https://c.example/abc'',
      content = None, summary = None, pubDate = 1000, author = None, categories = [],
      imageUrl = None, sourceFeedIds = [''f9'']\<rparr>"

definition racing_store :: world where
  "racing_store =
     \<lparr>rows = [], pending = [Quiet, OtherCreates other_writer, Fails (OtherError ''connection lost'')]\<rparr>"

text \<open>The store after the first observation of \<^verbatim>\<open>abc\<close>, and after the second.\<close>

definition stored_abc :: rssArticle where
  "stored_abc =
     \<lparr>feedId = ''f1'', guid = ''abc'', title = ''X'', link = ''https://a.example/abc'',
      content = Some ''text'', summary = None, pubDate = 1000, author = Some ''Ann, Bob'',
      categories = [], imageUrl = None, sourceFeedIds = [''f1''], article_id = 0\<rparr>"

definition store_with_abc :: world where
  "store_with_abc = \<lparr>rows = [stored_abc], pending = []\<rparr>"

definition merged_abc :: rssArticle where
  "merged_abc = stored_abc\<lparr>sourceFeedIds := [''f1'', ''f2'']\<rparr>"

definition store_with_merged_abc :: world where
  "store_with_merged_abc = \<lparr>rows = [merged_abc], pending = []\<rparr>"

text \<open>
  The same article seen through a third feed, and one whose author names a list that
  holds an object without prototype.
\<close>

definition seen_through_f3 :: articleCreateData where
  "seen_through_f3 = seen_through_f2\<lparr>feedId := ''f3''\<rparr>"

definition unprintable_author :: articleCreateData where
  "unprintable_author =
     seen_through_f1\<lparr>author := JObj ObjectPrototype [(''name'', JArr [JObj NullPrototype []])]\<rparr>"

text \<open>
  Two articles of feed \<^verbatim>\<open>f1\<close> in one window, and a store of a hundred and one of
  them, one published every millisecond.
\<close>

definition older_article :: rssArticle where
  "older_article =
     \<lparr>feedId = ''f1'', guid = ''old'', title = ''Old'', link = ''https://a.example/old'',
      content = None, summary = None, pubDate = 1000, author = Some ''Ann'',
      categories = [], imageUrl = None, sourceFeedIds = [''f1''], article_id = 0\<rparr>"

definition newer_article :: rssArticle where
  "newer_article =
     \<lparr>feedId = ''f1'', guid = ''new'', title = ''New'', link = ''https://a.example/new'',
      content = None, summary = None, pubDate = 2000, author = Some ''Bob'',
      categories = [], imageUrl = None, sourceFeedIds = [''f1''], article_id = 1\<rparr>"

definition two_articles :: world where
  "two_articles = \<lparr>rows = [older_article, newer_article], pending = []\<rparr>"

definition numbered_article :: "nat \<Rightarrow> rssArticle" where
  "numbered_article i =
     \<lparr>feedId = ''f1'', guid = replicate (Suc i) CHR ''g'', title = ''T'',
      link = ''https://a.example/'', content = None, summary = None, pubDate = int i,
      author = Some ''Ann'', categories = [], imageUrl = None, sourceFeedIds = [''f1''],
      article_id = i\<rparr>"

definition crowded_store :: world where
  "crowded_store = \<lparr>rows = map numbered_article [0..<101], pending = []\<rparr>"

definition no_feed :: "rssArticle \<Rightarrow> unit" where
  "no_feed a = ()"

text \<open>A newsletter with four titles, and the same with five.\<close>

definition four_titles :: generatedNewsletter where
  "four_titles =
     \<lparr>suggestedTitles = [''t1'', ''t2'', ''t3'', ''t4''],
      suggestedSubjectLines = [''s1'', ''s2'', ''s3'', ''s4'', ''s5''],
      body = ''text'',
      topAnnouncements = [''a1'', ''a2'', ''a3'', ''a4'', ''a5''],
      additionalInfo = None\<rparr>"

definition five_titles :: generatedNewsletter where
  "five_titles = four_titles\<lparr>suggestedTitles := [''t1'', ''t2'', ''t3'', ''t4'', ''t5'']\<rparr>"

section \<open>Properties of the author normaliser\<close>










section \<open>Properties of a single ingestion\<close>

lemmas call_defs =
  createRssArticle_def after_lookup_def wrapDatabaseOperation_def await_def resolve_def
  throw_def findUnique_select_def findUnique_def update_push_def create_def store_call_def
  environment_def insert_document_def has_guid_def new_document_def
  rssArticleCreateInput.defs rssArticle.defs getAuthorString_def join_def object_toString_def

lemma new_document_simps:
  "feedId (new_document d rs) = feedId d"
  "guid (new_document d rs) = guid d"
  "title (new_document d rs) = title d"
  "link (new_document d rs) = link d"
  "content (new_document d rs) = content d"
  "summary (new_document d rs) = summary d"
  "pubDate (new_document d rs) = pubDate d"
  "author (new_document d rs) = author d"
  "categories (new_document d rs) = categories d"
  "imageUrl (new_document d rs) = imageUrl d"
  "sourceFeedIds (new_document d rs) = sourceFeedIds d"
  "article_id (new_document d rs) = length rs"
  by (simp_all add: new_document_def rssArticleCreateInput.defs rssArticle.defs)

lemma first_observation_simps:
  "guid (first_observation d n rs) = guid d"
  "feedId (first_observation d n rs) = feedId d"
  "sourceFeedIds (first_observation d n rs) = [feedId d]"
  "title (first_observation d n rs) = title d"
  "link (first_observation d n rs) = link d"
  "content (first_observation d n rs) = content d"
  "summary (first_observation d n rs) = summary d"
  "pubDate (first_observation d n rs) = pubDate d"
  "author (first_observation d n rs) = Some (case n of Some s \<Rightarrow> s | None \<Rightarrow> ''Demo user'')"
  "categories (first_observation d n rs) = (case categories d of Some cs \<Rightarrow> cs | None \<Rightarrow> [])"
  "imageUrl (first_observation d n rs) = imageUrl d"
  by (simp_all add: first_observation_def create_data_def new_document_simps)

lemma environment_quiet: "pending w = [] \<Longrightarrow> environment w = (None, w)"
  by (simp add: environment_def)

lemma store_call_quiet:
  "pending w = [] \<Longrightarrow> store_call f w = (fst (f (rows w)), w\<lparr>rows := snd (f (rows w))\<rparr>)"
  by (simp add: store_call_def environment_quiet split: prod.splits)

lemma find_push_sourceFeedId:
  "find (\<lambda>a. guid a = g) (push_sourceFeedId g f rs) =
   map_option (\<lambda>a. a\<lparr>sourceFeedIds := sourceFeedIds a @ [f]\<rparr>) (find (\<lambda>a. guid a = g) rs)"
  by (induction rs) simp_all

lemma find_append_new:
  "find P rs = None \<Longrightarrow> find P (rs @ [a]) = (if P a then Some a else None)"
  by (induction rs) (simp_all split: if_splits)


text \<open>The ways through \<^verbatim>\<open>createRssArticle\<close> when nobody else touches the store.\<close>

lemma quiet_first_observation:
  assumes "pending w = []" and "find (\<lambda>a. guid a = guid d) (rows w) = None"
    and "getAuthorString (author d) = Inr n"
  shows "createRssArticle d w =
    (Inr (Some (first_observation d n (rows w))),
     w\<lparr>rows := rows w @ [first_observation d n (rows w)]\<rparr>)"
  using assms
  by (simp add: createRssArticle_def after_lookup_def wrapDatabaseOperation_def await_def
      resolve_def findUnique_select_def create_def store_call_quiet insert_document_def
      has_guid_def first_observation_def create_data_def)

lemma quiet_author_throws:
  assumes "pending w = []" and "find (\<lambda>a. guid a = guid d) (rows w) = None"
    and "getAuthorString (author d) = Inl e"
  shows "createRssArticle d w = (Inl e, w)"
  using assms
  by (simp add: createRssArticle_def after_lookup_def wrapDatabaseOperation_def await_def
      throw_def findUnique_select_def store_call_quiet)

lemma quiet_new_feed:
  assumes "pending w = []" and "find (\<lambda>a. guid a = guid d) (rows w) = Some a"
    and "feedId d \<notin> set (sourceFeedIds a)"
  shows "createRssArticle d w =
    (Inr (Some (a\<lparr>sourceFeedIds := sourceFeedIds a @ [feedId d]\<rparr>)),
     w\<lparr>rows := push_sourceFeedId (guid d) (feedId d) (rows w)\<rparr>)"
  using assms
  by (simp add: createRssArticle_def after_lookup_def wrapDatabaseOperation_def await_def
      resolve_def findUnique_select_def update_push_def store_call_quiet find_push_sourceFeedId)

lemma quiet_same_feed:
  assumes "pending w = []" and "find (\<lambda>a. guid a = guid d) (rows w) = Some a"
    and "feedId d \<in> set (sourceFeedIds a)"
  shows "createRssArticle d w = (Inr (Some a), w)"
  using assms
  by (simp add: createRssArticle_def after_lookup_def wrapDatabaseOperation_def await_def
      resolve_def findUnique_select_def findUnique_def store_call_quiet)



text \<open>
  C2. In a store that nobody else touches: a candidate whose guid is stored with the
  candidate's feed among the article's \<^verbatim>\<open>sourceFeedIds\<close> gets that article back and the
  store stays as it is; and ingesting any candidate a second time gives what the first
  call gave and leaves the store, so every \<^verbatim>\<open>sourceFeedIds\<close> in it, as the first
  call left it.
\<close>

theorem idempotent_reobservation:
  assumes quiet: "pending w = []"
  shows "(find (\<lambda>a. guid a = guid d) (rows w) = Some a \<and> feedId d \<in> set (sourceFeedIds a) \<longrightarrow>
            createRssArticle d w = (Inr (Some a), w)) \<and>
         createRssArticle d (snd (createRssArticle d w)) =
           (fst (createRssArticle d w), snd (createRssArticle d w))"
proof
  show "find (\<lambda>a. guid a = guid d) (rows w) = Some a \<and> feedId d \<in> set (sourceFeedIds a) \<longrightarrow>
      createRssArticle d w = (Inr (Some a), w)"
    using quiet by (simp add: quiet_same_feed)
next
  show "createRssArticle d (snd (createRssArticle d w)) =
      (fst (createRssArticle d w), snd (createRssArticle d w))"
  proof (cases "find (\<lambda>a. guid a = guid d) (rows w)")
    case None
    show ?thesis
    proof (cases "getAuthorString (author d)")
      case (Inl e)
      with quiet None have "createRssArticle d w = (Inl e, w)"
        by (simp add: quiet_author_throws)
      then show ?thesis
        by simp
    next
      case (Inr n)
      let ?a = "first_observation d n (rows w)"
      have "find (\<lambda>a. guid a = guid d) (rows w @ [?a]) = Some ?a"
        using None by (simp add: find_append_new first_observation_simps)
      then have "createRssArticle d (w\<lparr>rows := rows w @ [?a]\<rparr>) =
          (Inr (Some ?a), w\<lparr>rows := rows w @ [?a]\<rparr>)"
        using quiet by (intro quiet_same_feed) (simp_all add: first_observation_simps)
      then show ?thesis
        using quiet None Inr by (simp add: quiet_first_observation)
    qed
  next
    case (Some x)
    show ?thesis
    proof (cases "feedId d \<in> set (sourceFeedIds x)")
      case True
      then show ?thesis
        using quiet Some by (simp add: quiet_same_feed)
    next
      case False
      let ?x = "x\<lparr>sourceFeedIds := sourceFeedIds x @ [feedId d]\<rparr>"
      let ?w = "w\<lparr>rows := push_sourceFeedId (guid d) (feedId d) (rows w)\<rparr>"
      have "find (\<lambda>a. guid a = guid d) (rows ?w) = Some ?x"
        using Some by (simp add: find_push_sourceFeedId)
      then have "createRssArticle d ?w = (Inr (Some ?x), ?w)"
        using quiet by (intro quiet_same_feed) simp_all
      then show ?thesis
        using quiet Some False by (simp add: quiet_new_feed)
    qed
  qed
qed

theorem idempotent_reobservation_witness:
  "pending store_with_abc = [] \<and>
   find (\<lambda>a. guid a = guid seen_through_f1) (rows store_with_abc) = Some stored_abc \<and>
   feedId seen_through_f1 \<in> set (sourceFeedIds stored_abc) \<and>
   createRssArticle seen_through_f1 store_with_abc = (Inr (Some stored_abc), store_with_abc) \<and>
   createRssArticle seen_through_f1 (snd (createRssArticle seen_through_f1 store_with_abc)) =
     (Inr (Some stored_abc), store_with_abc) \<and>
   sourceFeedIds stored_abc = [''f1'']"
proof -
  have given: "pending store_with_abc = []"
    "find (\<lambda>a. guid a = guid seen_through_f1) (rows store_with_abc) = Some stored_abc"
    "feedId seen_through_f1 \<in> set (sourceFeedIds stored_abc)"
    by (simp_all add: seen_through_f1_def stored_abc_def store_with_abc_def)
  with idempotent_reobservation [OF given(1), of seen_through_f1 stored_abc]
  have "createRssArticle seen_through_f1 store_with_abc = (Inr (Some stored_abc), store_with_abc)"
    "createRssArticle seen_through_f1 (snd (createRssArticle seen_through_f1 store_with_abc)) =
     (Inr (Some stored_abc), store_with_abc)"
    by simp_all
  with given show ?thesis
    by (simp add: stored_abc_def)
qed

section \<open>Properties of the batch\<close>

lemma bulk_step_total:
  "created (fst (bulk_step a s)) + skipped (fst (bulk_step a s)) + errors (fst (bulk_step a s))
   = Suc (created (fst s) + skipped (fst s) + errors (fst s))"
  by (cases s) (simp add: bulk_step_def split: prod.splits sum.splits)

lemma bulk_loop_total:
  "created (fst (bulk_loop as s)) + skipped (fst (bulk_loop as s)) + errors (fst (bulk_loop as s))
   = created (fst s) + skipped (fst s) + errors (fst s) + length as"
  by (induction as arbitrary: s) (simp_all add: bulk_step_total)

text \<open>
  C4. Whatever the store does, the three counters of the result of a batch of \<open>N\<close>
  candidates add up to \<open>N\<close>.
\<close>

theorem batch_accounting:
  "created (fst (bulkCreateRssArticles articles w)) +
   skipped (fst (bulkCreateRssArticles articles w)) +
   errors (fst (bulkCreateRssArticles articles w)) = length articles"
  by (simp add: bulkCreateRssArticles_def bulk_loop_total)

theorem batch_accounting_witness:
  "fst (bulkCreateRssArticles [seen_through_f1, seen_through_f2, seen_through_f1] racing_store) =
     \<lparr>created = 1, skipped = 1, errors = 1\<rparr> \<and>
   created (fst (bulkCreateRssArticles [seen_through_f1, seen_through_f2, seen_through_f1] racing_store)) +
   skipped (fst (bulkCreateRssArticles [seen_through_f1, seen_through_f2, seen_through_f1] racing_store)) +
   errors (fst (bulkCreateRssArticles [seen_through_f1, seen_through_f2, seen_through_f1] racing_store)) = 3"
proof -
  have "fst (bulkCreateRssArticles [seen_through_f1, seen_through_f2, seen_through_f1] racing_store) =
     \<lparr>created = 1, skipped = 1, errors = 1\<rparr>"
    by (simp add: bulkCreateRssArticles_def bulk_step_def seen_through_f1_def seen_through_f2_def other_writer_def
        racing_store_def call_defs)
  then show ?thesis
    using batch_accounting [of "[seen_through_f1, seen_through_f2, seen_through_f1]" racing_store]
    by simp
qed

text \<open>What one turn of the loop does to each part of its state, by the outcome of the call.\<close>

lemma bulk_step_trace:
  "created (fst (bulk_step a s)) =
     created (fst s) + length (filter returned [(a, fst (createRssArticle a (snd (snd s))))])"
  "skipped (fst (bulk_step a s)) =
     skipped (fst s) + length (filter duplicate_key [(a, fst (createRssArticle a (snd (snd s))))])"
  "errors (fst (bulk_step a s)) =
     errors (fst s) + length (filter other_failure [(a, fst (createRssArticle a (snd (snd s))))])"
  "fst (snd (bulk_step a s)) =
     fst (snd s) @ concat (map failure_line
        (filter other_failure [(a, fst (createRssArticle a (snd (snd s))))]))"
  "snd (snd (bulk_step a s)) = snd (createRssArticle a (snd (snd s)))"
proof -
  obtain res out w where s: "s = (res, out, w)"
    by (cases s) auto
  obtain r w' where c: "createRssArticle a w = (r, w')"
    by (cases "createRssArticle a w") auto
  have "bulk_step a s =
      (res\<lparr>created := created res + length (filter returned [(a, r)]),
            skipped := skipped res + length (filter duplicate_key [(a, r)]),
            errors := errors res + length (filter other_failure [(a, r)])\<rparr>,
       out @ concat (map failure_line (filter other_failure [(a, r)])), w')"
  proof (cases r)
    case (Inr x)
    with s c show ?thesis by (simp add: bulk_step_def)
  next
    case (Inl e)
    with s c show ?thesis by (cases e) (simp_all add: bulk_step_def)
  qed
  with s c show
    "created (fst (bulk_step a s)) =
       created (fst s) + length (filter returned [(a, fst (createRssArticle a (snd (snd s))))])"
    "skipped (fst (bulk_step a s)) =
       skipped (fst s) + length (filter duplicate_key [(a, fst (createRssArticle a (snd (snd s))))])"
    "errors (fst (bulk_step a s)) =
       errors (fst s) + length (filter other_failure [(a, fst (createRssArticle a (snd (snd s))))])"
    "fst (snd (bulk_step a s)) =
       fst (snd s) @ concat (map failure_line
          (filter other_failure [(a, fst (createRssArticle a (snd (snd s))))]))"
    "snd (snd (bulk_step a s)) = snd (createRssArticle a (snd (snd s)))"
    by simp_all
qed

lemma bulk_loop_created:
  "created (fst (bulk_loop as s)) =
     created (fst s) + length (filter returned (attempts as (snd (snd s))))"
  by (induction as arbitrary: s) (simp_all add: bulk_step_trace)

lemma bulk_loop_skipped:
  "skipped (fst (bulk_loop as s)) =
     skipped (fst s) + length (filter duplicate_key (attempts as (snd (snd s))))"
  by (induction as arbitrary: s) (simp_all add: bulk_step_trace)

lemma bulk_loop_errors:
  "errors (fst (bulk_loop as s)) =
     errors (fst s) + length (filter other_failure (attempts as (snd (snd s))))"
  by (induction as arbitrary: s) (simp_all add: bulk_step_trace)

lemma bulk_loop_console:
  "fst (snd (bulk_loop as s)) =
     fst (snd s) @ concat (map failure_line (filter other_failure (attempts as (snd (snd s)))))"
  by (induction as arbitrary: s) (simp_all add: bulk_step_trace)

lemma attempts_candidates: "map fst (attempts as w) = as"
  by (induction as arbitrary: w) simp_all

lemma create_conflict_propagates:
  assumes "findUnique_select (guid a) w = (Inr None, w1)"
    and "getAuthorString (author a) = Inr n"
    and "create (create_data a n) w1 = (Inl e, w2)"
  shows "createRssArticle a w = (Inl e, w2)"
  using assms
  by (simp add: createRssArticle_def after_lookup_def wrapDatabaseOperation_def await_def
      create_data_def)

lemma author_failure_propagates:
  assumes "findUnique_select (guid a) w = (Inr None, w1)"
    and "getAuthorString (author a) = Inl e"
  shows "createRssArticle a w = (Inl e, w1)"
  using assms
  by (simp add: createRssArticle_def after_lookup_def wrapDatabaseOperation_def await_def
      throw_def)

text \<open>
  C5. A failure of the store during a candidate's create, after a lookup that found
  nothing, is what the candidate's call throws, and so is a failure of the author
  normaliser before the create. Over the calls the batch makes, one for
  each candidate in order whatever the calls before it did: \<^verbatim>\<open>skipped\<close> is the number of
  calls that threw the duplicate-key error \<^verbatim>\<open>P2002\<close>, \<^verbatim>\<open>errors\<close> is the number of
  calls that threw anything else, and what is printed is one line for each of the latter,
  with the guid of its candidate and the error.
\<close>

theorem batch_failure_classification:
  "(findUnique_select (guid a) w0 = (Inr None, w1) \<and> getAuthorString (author a) = Inr n \<and>
    create (create_data a n) w1 = (Inl e, w2) \<longrightarrow> createRssArticle a w0 = (Inl e, w2)) \<and>
   (findUnique_select (guid a) w0 = (Inr None, w1) \<and> getAuthorString (author a) = Inl e \<longrightarrow>
      createRssArticle a w0 = (Inl e, w1)) \<and>
   map fst (attempts articles w) = articles \<and>
   skipped (fst (bulkCreateRssArticles articles w)) =
     length (filter duplicate_key (attempts articles w)) \<and>
   errors (fst (bulkCreateRssArticles articles w)) =
     length (filter other_failure (attempts articles w)) \<and>
   fst (snd (bulkCreateRssArticles articles w)) =
     concat (map failure_line (filter other_failure (attempts articles w)))"
  by (simp add: bulkCreateRssArticles_def bulk_loop_skipped bulk_loop_errors bulk_loop_console
      attempts_candidates create_conflict_propagates author_failure_propagates)

theorem batch_failure_classification_witness:
  "findUnique_select (guid seen_through_f1) racing_store =
     (Inr None, \<lparr>rows = [], pending = [OtherCreates other_writer, Fails (OtherError ''connection lost'')]\<rparr>) \<and>
   getAuthorString (author seen_through_f1) = Inr (Some ''Ann, Bob'') \<and>
   create (create_data seen_through_f1 (Some ''Ann, Bob''))
       \<lparr>rows = [], pending = [OtherCreates other_writer, Fails (OtherError ''connection lost'')]\<rparr> =
     (Inl (PrismaError ''P2002''),
      \<lparr>rows = [new_document other_writer []], pending = [Fails (OtherError ''connection lost'')]\<rparr>) \<and>
   createRssArticle seen_through_f1 racing_store =
     (Inl (PrismaError ''P2002''),
      \<lparr>rows = [new_document other_writer []], pending = [Fails (OtherError ''connection lost'')]\<rparr>) \<and>
   map snd (attempts [seen_through_f1, seen_through_f2, seen_through_f1] racing_store) =
     [Inl (PrismaError ''P2002''), Inl (OtherError ''connection lost''),
      Inr (Some ((new_document other_writer [])\<lparr>sourceFeedIds := [''f9'', ''f1'']\<rparr>))] \<and>
   skipped (fst (bulkCreateRssArticles [seen_through_f1, seen_through_f2, seen_through_f1] racing_store)) = 1 \<and>
   errors (fst (bulkCreateRssArticles [seen_through_f1, seen_through_f2, seen_through_f1] racing_store)) = 1 \<and>
   fst (snd (bulkCreateRssArticles [seen_through_f1, seen_through_f2, seen_through_f1] racing_store)) =
     [(''Failed to create article abc:'', OtherError ''connection lost'')] \<and>
   findUnique_select (guid unprintable_author) empty_store = (Inr None, empty_store) \<and>
   getAuthorString (author unprintable_author) =
     Inl (TypeError ''Cannot convert object to primitive value'') \<and>
   createRssArticle unprintable_author empty_store =
     (Inl (TypeError ''Cannot convert object to primitive value''), empty_store) \<and>
   errors (fst (bulkCreateRssArticles [unprintable_author] empty_store)) = 1"
proof -
  let ?w1 = "\<lparr>rows = [], pending = [OtherCreates other_writer, Fails (OtherError ''connection lost'')]\<rparr>"
  let ?w2 = "\<lparr>rows = [new_document other_writer []], pending = [Fails (OtherError ''connection lost'')]\<rparr>"
  let ?E = "TypeError ''Cannot convert object to primitive value''"
  have lookup: "findUnique_select (guid seen_through_f1) racing_store = (Inr None, ?w1)"
    by (simp add: racing_store_def findUnique_select_def store_call_def environment_def)
  have normal: "getAuthorString (author seen_through_f1) = Inr (Some ''Ann, Bob'')"
    by (simp add: seen_through_f1_def getAuthorString_def join_def)
  have conflict: "create (create_data seen_through_f1 (Some ''Ann, Bob'')) ?w1 =
      (Inl (PrismaError ''P2002''), ?w2)"
    by (simp add: create_def store_call_def environment_def insert_document_def has_guid_def
        create_data_def seen_through_f1_def other_writer_def new_document_simps)
  have trace: "attempts [seen_through_f1, seen_through_f2, seen_through_f1] racing_store =
     [(seen_through_f1, Inl (PrismaError ''P2002'')),
      (seen_through_f2, Inl (OtherError ''connection lost'')),
      (seen_through_f1, Inr (Some ((new_document other_writer [])\<lparr>sourceFeedIds := [''f9'', ''f1'']\<rparr>)))]"
    by (simp add: seen_through_f1_def seen_through_f2_def other_writer_def
        racing_store_def call_defs)
  have guid: "guid seen_through_f2 = ''abc''"
    by (simp add: seen_through_f2_def)
  note classified = batch_failure_classification [where a = seen_through_f1 and ?w0.0 = racing_store
      and ?w1.0 = ?w1 and n = "Some ''Ann, Bob''" and e = "PrismaError ''P2002''" and ?w2.0 = ?w2
      and articles = "[seen_through_f1, seen_through_f2, seen_through_f1]" and w = racing_store]
  from classified lookup normal conflict
  have call: "createRssArticle seen_through_f1 racing_store = (Inl (PrismaError ''P2002''), ?w2)"
    by blast
  from classified [unfolded trace]
  have counted:
    "skipped (fst (bulkCreateRssArticles [seen_through_f1, seen_through_f2, seen_through_f1] racing_store)) = 1"
    "errors (fst (bulkCreateRssArticles [seen_through_f1, seen_through_f2, seen_through_f1] racing_store)) = 1"
    "fst (snd (bulkCreateRssArticles [seen_through_f1, seen_through_f2, seen_through_f1] racing_store)) =
      [(''Failed to create article abc:'', OtherError ''connection lost'')]"
    by (simp_all add: guid)
  have lookup': "findUnique_select (guid unprintable_author) empty_store = (Inr None, empty_store)"
    by (simp add: empty_store_def findUnique_select_def store_call_def environment_def)
  have failing: "getAuthorString (author unprintable_author) = Inl ?E"
    by (simp add: unprintable_author_def seen_through_f1_def getAuthorString_def join_def
        object_toString_def)
  note failed = batch_failure_classification [where a = unprintable_author and ?w0.0 = empty_store
      and ?w1.0 = empty_store and e = ?E and articles = "[unprintable_author]" and w = empty_store]
  from failed lookup' failing
  have call': "createRssArticle unprintable_author empty_store = (Inl ?E, empty_store)"
    by blast
  from failed have "errors (fst (bulkCreateRssArticles [unprintable_author] empty_store)) =
      length (filter other_failure (attempts [unprintable_author] empty_store))"
    by blast
  with call' have counted': "errors (fst (bulkCreateRssArticles [unprintable_author] empty_store)) = 1"
    by simp
  from lookup normal conflict call trace counted lookup' failing call' counted' show ?thesis
    by simp
qed

text \<open>
  C10. \<^verbatim>\<open>created\<close> is the number of calls of the batch that returned and
  \<^verbatim>\<open>skipped\<close> the number of calls that threw the duplicate-key error \<^verbatim>\<open>P2002\<close>. In
  a store that nobody else touches, the call for a candidate whose guid is already
  stored returns, whether or not the candidate's feed is among the article's
  \<^verbatim>\<open>sourceFeedIds\<close>, so a batch of that one candidate reports it as created and not as
  skipped.
\<close>

theorem duplicates_count_as_created:
  "created (fst (bulkCreateRssArticles articles w)) =
     length (filter returned (attempts articles w)) \<and>
   skipped (fst (bulkCreateRssArticles articles w)) =
     length (filter duplicate_key (attempts articles w)) \<and>
   (pending w0 = [] \<and> find (\<lambda>x. guid x = guid a) (rows w0) = Some x \<longrightarrow>
      returned (a, fst (createRssArticle a w0)) \<and>
      fst (bulkCreateRssArticles [a] w0) = \<lparr>created = 1, skipped = 0, errors = 0\<rparr>)"
proof -
  have counts: "created (fst (bulkCreateRssArticles articles w)) =
      length (filter returned (attempts articles w))"
    "skipped (fst (bulkCreateRssArticles articles w)) =
      length (filter duplicate_key (attempts articles w))"
    by (simp_all add: bulkCreateRssArticles_def bulk_loop_created bulk_loop_skipped)
  have stored: "returned (a, fst (createRssArticle a w0)) \<and>
      fst (bulkCreateRssArticles [a] w0) = \<lparr>created = 1, skipped = 0, errors = 0\<rparr>"
    if quiet: "pending w0 = []" and found: "find (\<lambda>x. guid x = guid a) (rows w0) = Some x"
  proof (cases "feedId a \<in> set (sourceFeedIds x)")
    case True
    with quiet found have "createRssArticle a w0 = (Inr (Some x), w0)"
      by (rule quiet_same_feed)
    then show ?thesis
      by (simp add: bulkCreateRssArticles_def bulk_step_def)
  next
    case False
    with quiet found have "createRssArticle a w0 =
        (Inr (Some (x\<lparr>sourceFeedIds := sourceFeedIds x @ [feedId a]\<rparr>)),
         w0\<lparr>rows := push_sourceFeedId (guid a) (feedId a) (rows w0)\<rparr>)"
      by (rule quiet_new_feed)
    then show ?thesis
      by (simp add: bulkCreateRssArticles_def bulk_step_def)
  qed
  from counts stored show ?thesis
    by blast
qed

theorem duplicates_count_as_created_witness:
  "pending store_with_abc = [] \<and>
   find (\<lambda>x. guid x = guid seen_through_f1) (rows store_with_abc) = Some stored_abc \<and>
   find (\<lambda>x. guid x = guid seen_through_f2) (rows store_with_abc) = Some stored_abc \<and>
   feedId seen_through_f1 \<in> set (sourceFeedIds stored_abc) \<and>
   feedId seen_through_f2 \<notin> set (sourceFeedIds stored_abc) \<and>
   fst (bulkCreateRssArticles [seen_through_f1] store_with_abc) =
     \<lparr>created = 1, skipped = 0, errors = 0\<rparr> \<and>
   fst (bulkCreateRssArticles [seen_through_f2] store_with_abc) =
     \<lparr>created = 1, skipped = 0, errors = 0\<rparr>"
proof -
  have given: "pending store_with_abc = []"
    "find (\<lambda>x. guid x = guid seen_through_f1) (rows store_with_abc) = Some stored_abc"
    "find (\<lambda>x. guid x = guid seen_through_f2) (rows store_with_abc) = Some stored_abc"
    "feedId seen_through_f1 \<in> set (sourceFeedIds stored_abc)"
    "feedId seen_through_f2 \<notin> set (sourceFeedIds stored_abc)"
    by (simp_all add: seen_through_f1_def seen_through_f2_def stored_abc_def store_with_abc_def)
  from given duplicates_count_as_created [of "[]" store_with_abc store_with_abc seen_through_f1 stored_abc]
  have same_feed: "fst (bulkCreateRssArticles [seen_through_f1] store_with_abc) =
     \<lparr>created = 1, skipped = 0, errors = 0\<rparr>"
    by blast
  from given duplicates_count_as_created [of "[]" store_with_abc store_with_abc seen_through_f2 stored_abc]
  have new_feed: "fst (bulkCreateRssArticles [seen_through_f2] store_with_abc) =
     \<lparr>created = 1, skipped = 0, errors = 0\<rparr>"
    by blast
  from given same_feed new_feed show ?thesis
    by simp
qed

section \<open>Properties of two calls that race\<close>

text \<open>The two steps of a call, one after the other, are the call.\<close>

lemma advance_twice:
  "advance d (fst (advance d NotStarted w)) (snd (advance d NotStarted w)) =
     (Settled (fst (createRssArticle d w)), snd (createRssArticle d w))"
proof (cases "findUnique_select (guid d) w")
  case (Pair r w')
  then show ?thesis
    by (cases r)
      (simp_all add: advance_def createRssArticle_def wrapDatabaseOperation_def await_def
        split: prod.splits)
qed

lemma rank_advance: "min 2 (Suc (rank p)) \<le> rank (fst (advance d p w))"
  by (cases p) (simp_all add: advance_def split: prod.splits sum.splits)

lemma interleaved_rank:
  "min 2 (rank p1 + count_list ts FirstCall) \<le> rank (fst (interleaved ts d1 d2 (p1, p2, w))) \<and>
   min 2 (rank p2 + count_list ts SecondCall) \<le> rank (fst (snd (interleaved ts d1 d2 (p1, p2, w))))"
proof (induction ts arbitrary: p1 p2 w)
  case Nil
  show ?case
    by simp
next
  case (Cons t ts)
  show ?case
  proof (cases t)
    case FirstCall
    obtain q w' where step: "advance d1 p1 w = (q, w')"
      by (cases "advance d1 p1 w") auto
    then have "min 2 (Suc (rank p1)) \<le> rank q"
      using rank_advance [of p1 d1 w] by simp
    with FirstCall
    have moved: "min 2 (rank p1 + count_list (t # ts) FirstCall) \<le> min 2 (rank q + count_list ts FirstCall)"
      and same: "count_list (t # ts) SecondCall = count_list ts SecondCall"
      by (auto simp: min_def split: if_splits)
    have run: "interleaved (t # ts) d1 d2 (p1, p2, w) = interleaved ts d1 d2 (q, p2, w')"
      using FirstCall step by simp
    from Cons.IH [of q p2 w'] moved show ?thesis
      unfolding run same by (blast intro: order_trans)
  next
    case SecondCall
    obtain q w' where step: "advance d2 p2 w = (q, w')"
      by (cases "advance d2 p2 w") auto
    then have "min 2 (Suc (rank p2)) \<le> rank q"
      using rank_advance [of p2 d2 w] by simp
    with SecondCall
    have moved: "min 2 (rank p2 + count_list (t # ts) SecondCall) \<le> min 2 (rank q + count_list ts SecondCall)"
      and same: "count_list (t # ts) FirstCall = count_list ts FirstCall"
      by (auto simp: min_def split: if_splits)
    have run: "interleaved (t # ts) d1 d2 (p1, p2, w) = interleaved ts d1 d2 (p1, q, w')"
      using SecondCall step by simp
    from Cons.IH [of p1 q w'] moved show ?thesis
      unfolding run same by (blast intro: order_trans)
  qed
qed

lemma rank_at_most: "rank p \<le> 2"
  by (cases p) simp_all

lemma rank_Settled: "rank p = 2 \<Longrightarrow> \<exists>r. p = Settled r"
  by (cases p) simp_all

lemma in_step_other: "in_step F p pushed \<Longrightarrow> F \<noteq> F' \<Longrightarrow> in_step F p (pushed @ [F'])"
  by (induction F p pushed rule: in_step.induct) auto

text \<open>A turn of the first call keeps what holds between the steps.\<close>

lemma racing_first:
  assumes inv: "racing x A B (p1, p2, w) pushed"
    and call: "guid d1 = guid x" "feedId d1 = A"
    and feeds: "A \<noteq> B" "A \<notin> set (sourceFeedIds x)"
  shows "\<exists>pushed'. racing x A B (fst (advance d1 p1 w), p2, snd (advance d1 p1 w)) pushed'"
proof -
  let ?y = "x\<lparr>sourceFeedIds := sourceFeedIds x @ pushed\<rparr>"
  from inv have quiet: "pending w = []"
    and found: "find (\<lambda>a. guid a = guid x) (rows w) = Some ?y"
    and mine: "in_step A p1 pushed" and other: "in_step B p2 pushed"
    and pushed: "pushed \<in> {[], [A], [B], [A, B], [B, A]}"
    by (simp_all add: racing_def)
  show ?thesis
  proof (cases p1)
    case NotStarted
    with mine have fresh: "A \<notin> set pushed"
      by simp
    have "advance d1 p1 w = (LookedUp (Some (article_id ?y, sourceFeedIds ?y)), w)"
      using NotStarted quiet found call
      by (simp add: advance_def findUnique_select_def store_call_quiet)
    moreover have "in_step A (LookedUp (Some (article_id ?y, sourceFeedIds ?y))) pushed"
      using fresh feeds by simp
    ultimately have "racing x A B (fst (advance d1 p1 w), p2, snd (advance d1 p1 w)) pushed"
      using quiet found other pushed by (simp add: racing_def)
    then show ?thesis ..
  next
    case (LookedUp existing)
    with mine obtain i l where existing: "existing = Some (i, l)"
      and fresh: "A \<notin> set pushed" and unseen: "A \<notin> set l"
      by (cases existing) auto
    let ?z = "x\<lparr>sourceFeedIds := sourceFeedIds x @ (pushed @ [A])\<rparr>"
    have step: "advance d1 p1 w =
        (Settled (Inr (Some ?z)), w\<lparr>rows := push_sourceFeedId (guid x) A (rows w)\<rparr>)"
      using LookedUp existing unseen quiet found call
      by (simp add: advance_def after_lookup_def await_def resolve_def update_push_def
          store_call_quiet find_push_sourceFeedId)
    have found': "find (\<lambda>a. guid a = guid x) (push_sourceFeedId (guid x) A (rows w)) = Some ?z"
      using found by (simp add: find_push_sourceFeedId)
    have other': "in_step B p2 (pushed @ [A])"
      using other feeds by (intro in_step_other) auto
    have pushed': "pushed @ [A] \<in> {[], [A], [B], [A, B], [B, A]}"
      using pushed fresh by auto
    have "racing x A B (fst (advance d1 p1 w), p2, snd (advance d1 p1 w)) (pushed @ [A])"
      using step quiet found' other' pushed' by (simp add: racing_def)
    then show ?thesis ..
  next
    case (Settled r)
    then have "advance d1 p1 w = (p1, w)"
      by (simp add: advance_def)
    with inv show ?thesis
      by auto
  qed
qed

lemma racing_swap: "racing x A B (p1, p2, w) pushed \<longleftrightarrow> racing x B A (p2, p1, w) pushed"
  by (auto simp: racing_def)

lemma racing_second:
  assumes inv: "racing x A B (p1, p2, w) pushed"
    and call: "guid d2 = guid x" "feedId d2 = B"
    and feeds: "A \<noteq> B" "B \<notin> set (sourceFeedIds x)"
  shows "\<exists>pushed'. racing x A B (p1, fst (advance d2 p2 w), snd (advance d2 p2 w)) pushed'"
proof -
  from inv have "racing x B A (p2, p1, w) pushed"
    by (simp only: racing_swap)
  then have "\<exists>pushed'. racing x B A (fst (advance d2 p2 w), p1, snd (advance d2 p2 w)) pushed'"
    using call feeds by (intro racing_first) auto
  then show ?thesis
    by (simp only: racing_swap)
qed

lemma interleaved_racing:
  assumes "racing x A B (p1, p2, w) pushed"
    and "guid d1 = guid x" "feedId d1 = A" "guid d2 = guid x" "feedId d2 = B"
    and "A \<noteq> B" "A \<notin> set (sourceFeedIds x)" "B \<notin> set (sourceFeedIds x)"
  shows "\<exists>pushed'. racing x A B (interleaved ts d1 d2 (p1, p2, w)) pushed'"
  using assms
proof (induction ts arbitrary: p1 p2 w pushed)
  case Nil
  then show ?case
    by auto
next
  case (Cons t ts)
  show ?case
  proof (cases t)
    case FirstCall
    obtain q w' where step: "advance d1 p1 w = (q, w')"
      by (cases "advance d1 p1 w") auto
    from Cons.prems obtain pushed' where
      "racing x A B (fst (advance d1 p1 w), p2, snd (advance d1 p1 w)) pushed'"
      using racing_first by blast
    with step have "racing x A B (q, p2, w') pushed'"
      by simp
    then have "\<exists>pushed''. racing x A B (interleaved ts d1 d2 (q, p2, w')) pushed''"
      using Cons.prems by (intro Cons.IH) auto
    with FirstCall step show ?thesis
      by simp
  next
    case SecondCall
    obtain q w' where step: "advance d2 p2 w = (q, w')"
      by (cases "advance d2 p2 w") auto
    from Cons.prems obtain pushed' where
      "racing x A B (p1, fst (advance d2 p2 w), snd (advance d2 p2 w)) pushed'"
      using racing_second by blast
    with step have "racing x A B (p1, q, w') pushed'"
      by simp
    then have "\<exists>pushed''. racing x A B (interleaved ts d1 d2 (p1, q, w')) pushed''"
      using Cons.prems by (intro Cons.IH) auto
    with SecondCall step show ?thesis
      by simp
  qed
qed

text \<open>
  Two calls that add different feeds to a stored article, each of which the article does
  not have yet, in a store that nobody else touches: whatever the order in which the
  store takes their calls, once each has had its two turns both have returned, and the
  stored article is the article that was there with both feeds after its own, in one of
  the two orders.
\<close>

lemma concurrent_different_feeds:
  assumes quiet: "pending w = []"
    and found: "find (\<lambda>a. guid a = G) (rows w) = Some x"
    and calls: "guid d1 = G" "feedId d1 = A" "guid d2 = G" "feedId d2 = B"
    and feeds: "A \<noteq> B" "A \<notin> set (sourceFeedIds x)" "B \<notin> set (sourceFeedIds x)"
    and complete: "2 \<le> count_list ts FirstCall" "2 \<le> count_list ts SecondCall"
  shows "\<exists>a1 a2 w' pushed.
      interleaved ts d1 d2 (NotStarted, NotStarted, w) = (Settled (Inr a1), Settled (Inr a2), w') \<and>
      find (\<lambda>a. guid a = G) (rows w') = Some (x\<lparr>sourceFeedIds := sourceFeedIds x @ pushed\<rparr>) \<and>
      (pushed = [A, B] \<or> pushed = [B, A])"
proof -
  from found have G: "guid x = G"
    by (auto dest: find_Some_iff [THEN iffD1])
  have "x\<lparr>sourceFeedIds := sourceFeedIds x @ []\<rparr> = x"
    by simp
  with quiet found G have start: "racing x A B (NotStarted, NotStarted, w) []"
    by (simp add: racing_def)
  obtain q1 q2 w' where final: "interleaved ts d1 d2 (NotStarted, NotStarted, w) = (q1, q2, w')"
    by (cases "interleaved ts d1 d2 (NotStarted, NotStarted, w)") auto
  from start calls feeds G obtain pushed where inv: "racing x A B (q1, q2, w') pushed"
    using interleaved_racing [of x A B NotStarted NotStarted w "[]" d1 d2 ts] final by auto
  from interleaved_rank [of NotStarted ts d1 d2 NotStarted w] final complete
  have "2 \<le> rank q1" "2 \<le> rank q2"
    by simp_all
  with rank_at_most [of q1] rank_at_most [of q2] have "rank q1 = 2" "rank q2 = 2"
    by simp_all
  then obtain r1 r2 where settled: "q1 = Settled r1" "q2 = Settled r2"
    using rank_Settled by blast
  from inv settled obtain a1 a2 where returned: "r1 = Inr a1" "r2 = Inr a2"
    and both: "A \<in> set pushed" "B \<in> set pushed"
    by (cases r1; cases r2) (simp_all add: racing_def)
  from inv have "pushed \<in> {[], [A], [B], [A, B], [B, A]}"
    by (simp add: racing_def)
  with both feeds have order: "pushed = [A, B] \<or> pushed = [B, A]"
    by auto
  from inv G have "find (\<lambda>a. guid a = G) (rows w') =
      Some (x\<lparr>sourceFeedIds := sourceFeedIds x @ pushed\<rparr>)"
    by (simp add: racing_def)
  with final settled returned order show ?thesis
    by blast
qed

lemma concurrent_different_feeds_example:
  "\<exists>a1 a2 w'.
     interleaved [FirstCall, SecondCall, SecondCall, FirstCall] seen_through_f2 seen_through_f3
       (NotStarted, NotStarted, store_with_abc) = (Settled (Inr a1), Settled (Inr a2), w') \<and>
     find (\<lambda>a. guid a = ''abc'') (rows w') =
       Some (stored_abc\<lparr>sourceFeedIds := sourceFeedIds stored_abc @ [''f3'', ''f2'']\<rparr>)"
proof -
  have given: "pending store_with_abc = []"
    "find (\<lambda>a. guid a = ''abc'') (rows store_with_abc) = Some stored_abc"
    "guid seen_through_f2 = ''abc''" "feedId seen_through_f2 = ''f2''"
    "guid seen_through_f3 = ''abc''" "feedId seen_through_f3 = ''f3''"
    "''f2'' \<noteq> ''f3''" "''f2'' \<notin> set (sourceFeedIds stored_abc)"
    "''f3'' \<notin> set (sourceFeedIds stored_abc)"
    "2 \<le> count_list [FirstCall, SecondCall, SecondCall, FirstCall] FirstCall"
    "2 \<le> count_list [FirstCall, SecondCall, SecondCall, FirstCall] SecondCall"
    by (simp_all add: store_with_abc_def stored_abc_def seen_through_f2_def seen_through_f3_def)
  have run: "interleaved [FirstCall, SecondCall, SecondCall, FirstCall] seen_through_f2 seen_through_f3
       (NotStarted, NotStarted, store_with_abc) =
     (Settled (Inr (Some (stored_abc\<lparr>sourceFeedIds := [''f1'', ''f3'', ''f2'']\<rparr>))),
      Settled (Inr (Some (stored_abc\<lparr>sourceFeedIds := [''f1'', ''f3'']\<rparr>))),
      \<lparr>rows = [stored_abc\<lparr>sourceFeedIds := [''f1'', ''f3'', ''f2'']\<rparr>], pending = []\<rparr>)"
    by (simp add: advance_def seen_through_f2_def seen_through_f3_def stored_abc_def
        store_with_abc_def call_defs)
  from concurrent_different_feeds [OF given] run show ?thesis
    by (auto simp: stored_abc_def)
qed


section \<open>Properties of the retrieval\<close>

lemmas retrieval_defs =
  getArticlesByFeedsAndDateRange_def wrapDatabaseOperation_def await_def resolve_def
  findMany_def store_call_def environment_def ARTICLE_ORDER_BY_DATE_DESC_def take_count_def
  where_clause_def hasSome_def

lemma hasSome_meets: "hasSome stored values \<longleftrightarrow> set stored \<inter> set values \<noteq> {}"
  by (auto simp: hasSome_def list_ex_iff)

lemma where_clause_selection: "where_clause feedIds s e = selection_predicate feedIds s e"
  by (rule ext) (simp add: where_clause_def selection_predicate_def hasSome_meets)

lemma quiet_retrieval:
  assumes "pending w = []"
  shows "getArticlesByFeedsAndDateRange inc feedIds s e limit w =
    (Inr (map (\<lambda>a. \<lparr>article = a, feed = inc a, sourceCount = length (sourceFeedIds a)\<rparr>)
       (take_count (case limit of None \<Rightarrow> 100 | Some n \<Rightarrow> n)
          (sort_key (\<lambda>a. - pubDate a) (filter (where_clause feedIds s e) (rows w))))), w)"
  using assms
  by (simp add: getArticlesByFeedsAndDateRange_def wrapDatabaseOperation_def await_def
      resolve_def findMany_def store_call_quiet ARTICLE_ORDER_BY_DATE_DESC_def comp_def)

lemma mset_take_count: "mset (take_count n xs) \<subseteq># mset xs"
proof -
  have "\<And>k. mset (take k xs) \<subseteq># mset xs"
    by (metis append_take_drop_id mset_append mset_subset_eq_add_left)
  moreover have "\<And>k. mset (drop k xs) \<subseteq># mset xs"
    by (metis append_take_drop_id mset_append mset_subset_eq_add_right)
  ultimately show ?thesis
    by (simp add: take_count_def)
qed

lemma take_count_all: "int (length xs) \<le> n \<Longrightarrow> take_count n xs = xs"
  by (simp add: take_count_def)

text \<open>
  C3, as the code has it. In a store that nobody else touches the call returns, and the
  articles it returns are the stored articles the selection predicate holds of, put in
  descending order of publication date and cut to the limit, which is 100 when none is
  given. So every returned article is a stored one in the window with a feed among the
  given ones, none is returned more often than it is stored, and when there are no more
  such articles than the limit, the returned ones are exactly these.
\<close>

theorem window_selection:
  assumes quiet: "pending w = []"
    and lim: "lim = (case limit of None \<Rightarrow> 100 | Some n \<Rightarrow> n)"
  shows "\<exists>res. getArticlesByFeedsAndDateRange inc feedIds s e limit w = (Inr res, w) \<and>
      map article res =
        take_count lim (sort_key (\<lambda>a. - pubDate a) (filter (selection_predicate feedIds s e) (rows w))) \<and>
      mset (map article res) \<subseteq># mset (filter (selection_predicate feedIds s e) (rows w)) \<and>
      (int (length (filter (selection_predicate feedIds s e) (rows w))) \<le> lim \<longrightarrow>
         mset (map article res) = mset (filter (selection_predicate feedIds s e) (rows w)))"
proof -
  let ?found = "sort_key (\<lambda>a. - pubDate a) (filter (selection_predicate feedIds s e) (rows w))"
  let ?res = "map (\<lambda>a. \<lparr>article = a, feed = inc a, sourceCount = length (sourceFeedIds a)\<rparr>)
       (take_count lim ?found)"
  have call: "getArticlesByFeedsAndDateRange inc feedIds s e limit w = (Inr ?res, w)"
    using quiet lim by (simp add: quiet_retrieval where_clause_selection)
  have arts: "map article ?res = take_count lim ?found"
    by (simp add: comp_def)
  have "mset (take_count lim ?found) \<subseteq># mset ?found"
    by (rule mset_take_count)
  then have "mset (take_count lim ?found) \<subseteq># mset (filter (selection_predicate feedIds s e) (rows w))"
    by (simp only: mset_sort)
  then have sub: "mset (map article ?res) \<subseteq># mset (filter (selection_predicate feedIds s e) (rows w))"
    by (simp only: arts)
  have all: "int (length (filter (selection_predicate feedIds s e) (rows w))) \<le> lim \<longrightarrow>
         mset (map article ?res) = mset (filter (selection_predicate feedIds s e) (rows w))"
    by (simp only: arts) (simp add: take_count_all del: mset_filter)
  show ?thesis
    using call arts sub all by blast
qed

theorem window_selection_witness:
  "pending two_articles = [] \<and>
   getArticlesByFeedsAndDateRange no_feed [''f1''] 0 5000 None two_articles =
     (Inr [\<lparr>article = newer_article, feed = (), sourceCount = 1\<rparr>,
           \<lparr>article = older_article, feed = (), sourceCount = 1\<rparr>], two_articles) \<and>
   int (length (filter (selection_predicate [''f1''] 0 5000) (rows two_articles))) \<le> 100 \<and>
   mset [newer_article, older_article] =
     mset (filter (selection_predicate [''f1''] 0 5000) (rows two_articles))"
proof -
  have quiet: "pending two_articles = []"
    by (simp add: two_articles_def)
  have call: "getArticlesByFeedsAndDateRange no_feed [''f1''] 0 5000 None two_articles =
     (Inr [\<lparr>article = newer_article, feed = (), sourceCount = 1\<rparr>,
           \<lparr>article = older_article, feed = (), sourceCount = 1\<rparr>], two_articles)"
    by (simp add: retrieval_defs no_feed_def older_article_def newer_article_def two_articles_def)
  have few: "int (length (filter (selection_predicate [''f1''] 0 5000) (rows two_articles))) \<le> 100"
    by (simp add: two_articles_def)
  from window_selection [OF quiet refl, of no_feed "[''f1'']" 0 5000 None]
  obtain res where res: "getArticlesByFeedsAndDateRange no_feed [''f1''] 0 5000 None two_articles =
      (Inr res, two_articles)"
    and all: "int (length (filter (selection_predicate [''f1''] 0 5000) (rows two_articles))) \<le> 100 \<longrightarrow>
      mset (map article res) = mset (filter (selection_predicate [''f1''] 0 5000) (rows two_articles))"
    by auto
  from res call have "res = [\<lparr>article = newer_article, feed = (), sourceCount = 1\<rparr>,
      \<lparr>article = older_article, feed = (), sourceCount = 1\<rparr>]"
    by simp
  then have "map article res = [newer_article, older_article]"
    by simp
  with all few have "mset [newer_article, older_article] =
     mset (filter (selection_predicate [''f1''] 0 5000) (rows two_articles))"
    by (simp only:)
  with quiet call few show ?thesis
    by simp
qed

lemma numbered_in_window: "where_clause [''f1''] 0 100 (numbered_article i) \<longleftrightarrow> i \<le> 100"
  by (simp add: where_clause_def numbered_article_def)

text \<open>
  C3 as the specification words it fails when more articles match than the limit allows:
  with a limit of one, the older of two matching articles is not returned, and without a
  given limit a store of 101 matching articles gives 100 of them.
\<close>

theorem window_selection_counterexample:
  "getArticlesByFeedsAndDateRange no_feed [''f1''] 0 5000 (Some 1) two_articles =
     (Inr [\<lparr>article = newer_article, feed = (), sourceCount = 1\<rparr>], two_articles) \<and>
   older_article \<in> set (rows two_articles) \<and>
   selection_predicate [''f1''] 0 5000 older_article \<and>
   older_article \<noteq> newer_article \<and>
   length (filter (selection_predicate [''f1''] 0 100) (rows crowded_store)) = 101 \<and>
   length (projr (fst (getArticlesByFeedsAndDateRange no_feed [''f1''] 0 100 None crowded_store))) = 100"
proof -
  have small: "getArticlesByFeedsAndDateRange no_feed [''f1''] 0 5000 (Some 1) two_articles =
     (Inr [\<lparr>article = newer_article, feed = (), sourceCount = 1\<rparr>], two_articles)"
    by (simp add: retrieval_defs no_feed_def older_article_def newer_article_def two_articles_def)
  have missed: "older_article \<in> set (rows two_articles)"
    "selection_predicate [''f1''] 0 5000 older_article" "older_article \<noteq> newer_article"
    by (simp_all add: selection_predicate_def older_article_def newer_article_def two_articles_def)
  have "filter (where_clause [''f1''] 0 100) (rows crowded_store) = rows crowded_store"
    by (simp add: crowded_store_def numbered_in_window filter_id_conv)
  then have matching: "length (filter (where_clause [''f1''] 0 100) (rows crowded_store)) = 101"
    by (simp add: crowded_store_def)
  have "pending crowded_store = []"
    by (simp add: crowded_store_def)
  then have "length (projr (fst (getArticlesByFeedsAndDateRange no_feed [''f1''] 0 100 None crowded_store))) =
      min 100 (length (filter (where_clause [''f1''] 0 100) (rows crowded_store)))"
    by (simp add: quiet_retrieval take_count_def)
  with matching have large:
    "length (projr (fst (getArticlesByFeedsAndDateRange no_feed [''f1''] 0 100 None crowded_store))) = 100"
    by simp
  from small missed matching large show ?thesis
    by (simp add: where_clause_selection)
qed

lemma sorted_desc_sort_key:
  "sorted_wrt (\<lambda>x y. pubDate y \<le> pubDate x) (sort_key (\<lambda>a. - pubDate a) (rs :: rssArticle list))"
proof -
  have "sorted (map (\<lambda>a. - pubDate a) (sort_key (\<lambda>a. - pubDate a) rs))"
    by (rule sorted_sort_key)
  then show ?thesis
    by (simp add: sorted_map)
qed

text \<open>
  C8, as the code has it. In a store that nobody else touches the call returns. The
  returned sequence is in descending order of publication date, and every element carries
  as \<^verbatim>\<open>sourceCount\<close> the length of the \<^verbatim>\<open>sourceFeedIds\<close> its article has in the
  store at the time of the call. For a limit of zero or more (100 when none is given) it
  has at most limit elements, and its articles are the first limit elements of the
  matching articles in that order, so that a matching article that is left out is no more
  recent than any returned one. For a negative limit \<open>- n\<close> its articles are the last
  \<open>n\<close> of the matching articles in that order.
\<close>

theorem ordering_truncation_annotation:
  assumes quiet: "pending w = []"
    and lim: "lim = (case limit of None \<Rightarrow> 100 | Some n \<Rightarrow> n)"
    and found: "found = ARTICLE_ORDER_BY_DATE_DESC (filter (where_clause feedIds s e) (rows w))"
  shows "\<exists>res. getArticlesByFeedsAndDateRange inc feedIds s e limit w = (Inr res, w) \<and>
      sorted_wrt (\<lambda>x y. pubDate (article y) \<le> pubDate (article x)) res \<and>
      (\<forall>r \<in> set res. article r \<in> set (rows w) \<and>
         sourceCount r = length (sourceFeedIds (article r))) \<and>
      (0 \<le> lim \<longrightarrow>
         int (length res) \<le> lim \<and> map article res = take (nat lim) found \<and>
         (\<forall>a \<in> set (filter (where_clause feedIds s e) (rows w)) - set (map article res).
            \<forall>r \<in> set res. pubDate a \<le> pubDate (article r))) \<and>
      (lim < 0 \<longrightarrow>
         int (length res) \<le> - lim \<and>
         map article res = drop (length found - nat (- lim)) found)"
proof -
  let ?res = "map (\<lambda>a. \<lparr>article = a, feed = inc a, sourceCount = length (sourceFeedIds a)\<rparr>)
       (take_count lim found)"
  have found': "found = sort_key (\<lambda>a. - pubDate a) (filter (where_clause feedIds s e) (rows w))"
    by (simp add: found ARTICLE_ORDER_BY_DATE_DESC_def)
  have call: "getArticlesByFeedsAndDateRange inc feedIds s e limit w = (Inr ?res, w)"
    using quiet lim by (simp add: quiet_retrieval found')
  have arts: "map article ?res = take_count lim found"
    by (simp add: comp_def)
  have whole: "sorted_wrt (\<lambda>x y. pubDate y \<le> pubDate x) found"
    by (simp add: found' sorted_desc_sort_key)
  then have "sorted_wrt (\<lambda>x y. pubDate y \<le> pubDate x) (take_count lim found)"
    by (simp add: take_count_def sorted_wrt_take sorted_wrt_drop)
  then have "sorted_wrt (\<lambda>x y. pubDate y \<le> pubDate x) (map article ?res)"
    by (simp only: arts)
  then have ordered: "sorted_wrt (\<lambda>x y. pubDate (article y) \<le> pubDate (article x)) ?res"
    by (simp only: sorted_wrt_map)
  have annotated: "\<forall>r \<in> set ?res. article r \<in> set (rows w) \<and>
      sourceCount r = length (sourceFeedIds (article r))"
  proof
    fix r
    assume "r \<in> set ?res"
    then obtain a where a: "a \<in> set (take_count lim found)"
      and r: "r = \<lparr>article = a, feed = inc a, sourceCount = length (sourceFeedIds a)\<rparr>"
      by auto
    from a have "a \<in> set found"
      by (auto simp: take_count_def dest: in_set_takeD in_set_dropD split: if_splits)
    then have "a \<in> set (rows w)"
      by (simp add: found')
    with r show "article r \<in> set (rows w) \<and> sourceCount r = length (sourceFeedIds (article r))"
      by simp
  qed
  have counted: "0 \<le> lim \<longrightarrow>
         int (length ?res) \<le> lim \<and> map article ?res = take (nat lim) found \<and>
         (\<forall>a \<in> set (filter (where_clause feedIds s e) (rows w)) - set (map article ?res).
            \<forall>r \<in> set ?res. pubDate a \<le> pubDate (article r))"
  proof
    assume count: "0 \<le> lim"
    then have "take_count lim found = take (nat lim) found"
      by (simp add: take_count_def)
    with arts have taken: "map article ?res = take (nat lim) found"
      by (simp only:)
    have capped: "int (length ?res) \<le> lim"
      using count by (simp add: take_count_def)
    have split: "sorted_wrt (\<lambda>x y. pubDate y \<le> pubDate x) (take (nat lim) found @ drop (nat lim) found)"
      using whole by simp
    have recent: "\<forall>a \<in> set (filter (where_clause feedIds s e) (rows w)) - set (map article ?res).
         \<forall>r \<in> set ?res. pubDate a \<le> pubDate (article r)"
    proof (intro ballI)
      fix a r
      assume a: "a \<in> set (filter (where_clause feedIds s e) (rows w)) - set (map article ?res)"
        and r: "r \<in> set ?res"
      have "a \<in> set found"
        using a by (simp add: found')
      then have "a \<in> set (take (nat lim) found) \<union> set (drop (nat lim) found)"
        by (metis append_take_drop_id set_append)
      with a have dropped: "a \<in> set (drop (nat lim) found)"
        unfolding taken by blast
      have "article r \<in> article ` set ?res"
        using r by (rule imageI)
      then have "article r \<in> set (map article ?res)"
        by (simp only: set_map)
      then have kept: "article r \<in> set (take (nat lim) found)"
        by (simp only: taken)
      from split kept dropped show "pubDate a \<le> pubDate (article r)"
        unfolding sorted_wrt_append by blast
    qed
    from capped taken recent show "int (length ?res) \<le> lim \<and>
         map article ?res = take (nat lim) found \<and>
         (\<forall>a \<in> set (filter (where_clause feedIds s e) (rows w)) - set (map article ?res).
            \<forall>r \<in> set ?res. pubDate a \<le> pubDate (article r))"
      by blast
  qed
  have from_end: "lim < 0 \<longrightarrow>
         int (length ?res) \<le> - lim \<and>
         map article ?res = drop (length found - nat (- lim)) found"
  proof
    assume negative: "lim < 0"
    then have "take_count lim found = drop (length found - nat (- lim)) found"
      by (simp add: take_count_def)
    with arts have dropped: "map article ?res = drop (length found - nat (- lim)) found"
      by (simp only:)
    have "int (length ?res) \<le> - lim"
      using negative by (simp add: take_count_def)
    with dropped show "int (length ?res) \<le> - lim \<and>
         map article ?res = drop (length found - nat (- lim)) found"
      by blast
  qed
  show ?thesis
    using call ordered annotated counted from_end by blast
qed

theorem ordering_truncation_annotation_witness:
  "pending store_with_merged_abc = [] \<and> pending two_articles = [] \<and> (0::int) \<le> 100 \<and> (0::int) \<le> 1 \<and>
   getArticlesByFeedsAndDateRange no_feed [''f1''] 0 2000 None store_with_merged_abc =
     (Inr [\<lparr>article = merged_abc, feed = (), sourceCount = 2\<rparr>], store_with_merged_abc) \<and>
   getArticlesByFeedsAndDateRange no_feed [''f1''] 0 5000 (Some 1) two_articles =
     (Inr [\<lparr>article = newer_article, feed = (), sourceCount = 1\<rparr>], two_articles) \<and>
   length (sourceFeedIds merged_abc) = 2 \<and>
   pubDate older_article \<le> pubDate newer_article"
proof -
  have quiet: "pending store_with_merged_abc = []" "pending two_articles = []"
    by (simp_all add: two_articles_def store_with_merged_abc_def)
  have calls: "getArticlesByFeedsAndDateRange no_feed [''f1''] 0 2000 None store_with_merged_abc =
     (Inr [\<lparr>article = merged_abc, feed = (), sourceCount = 2\<rparr>], store_with_merged_abc)"
    "getArticlesByFeedsAndDateRange no_feed [''f1''] 0 5000 (Some 1) two_articles =
     (Inr [\<lparr>article = newer_article, feed = (), sourceCount = 1\<rparr>], two_articles)"
    by (simp_all add: retrieval_defs no_feed_def older_article_def newer_article_def two_articles_def
        stored_abc_def merged_abc_def store_with_merged_abc_def)
  from ordering_truncation_annotation [OF quiet(1) refl refl, where limit = None and inc = no_feed
      and feedIds = "[''f1'']" and s = 0 and e = 2000] calls(1)
  have fresh: "length (sourceFeedIds merged_abc) = 2"
    by auto
  have left_out: "older_article \<in> set (filter (where_clause [''f1''] 0 5000) (rows two_articles)) -
      set [newer_article]"
    by (simp add: older_article_def newer_article_def two_articles_def where_clause_def)
  from ordering_truncation_annotation [OF quiet(2) refl refl, where limit = "Some 1"
      and inc = no_feed and feedIds = "[''f1'']" and s = 0 and e = 5000] calls(2) left_out
  have recent: "pubDate older_article \<le> pubDate newer_article"
    by auto
  from quiet calls fresh recent show ?thesis
    by simp
qed

text \<open>
  C8 as the specification words it fails for a negative limit: with a limit of \<open>- 1\<close>
  the call returns one element, which is more than the limit, and of two matching
  articles it returns the older one.
\<close>

theorem ordering_truncation_annotation_counterexample:
  "getArticlesByFeedsAndDateRange no_feed [''f1''] 0 5000 (Some (- 1)) two_articles =
     (Inr [\<lparr>article = older_article, feed = (), sourceCount = 1\<rparr>], two_articles) \<and>
   (- 1 :: int) < int (length [\<lparr>article = older_article, feed = (), sourceCount = 1\<rparr>]) \<and>
   newer_article \<in> set (rows two_articles) \<and>
   where_clause [''f1''] 0 5000 newer_article \<and>
   pubDate older_article < pubDate newer_article"
  by (simp add: retrieval_defs no_feed_def older_article_def newer_article_def two_articles_def)

section \<open>Properties of the newsletter schema\<close>

lemma z_all_strings: "z_all z_string (map JStr ss) = Some ss"
  by (induction ss) simp_all

lemma NewsletterSchema_runtime_value:
  "NewsletterSchema (runtime_value n) =
     (if length (suggestedTitles n) = 5 \<and> length (suggestedSubjectLines n) = 5 \<and>
         length (topAnnouncements n) = 5 then Some n else None)"
  by (cases "additionalInfo n") (simp_all add: runtime_value_def z_length_def z_all_strings)

text \<open>
  C7. Saving a newsletter whose three bounded arrays have five elements each succeeds
  and stores the very newsletter that was given; saving one in which any of them has
  another length fails with the validation error and leaves the store as it was, so no
  array is cut or filled up to five.
\<close>

theorem save_time_shape:
  "saveGeneratedNewsletter (runtime_value n) feedIds startDate endDate userInput store =
     (if length (suggestedTitles n) = 5 \<and> length (suggestedSubjectLines n) = 5 \<and>
         length (topAnnouncements n) = 5
      then (Inr \<lparr>newsletter = n, saved_feedIds = feedIds, saved_startDate = startDate,
                 saved_endDate = endDate, saved_userInput = userInput\<rparr>,
            store @ [\<lparr>newsletter = n, saved_feedIds = feedIds, saved_startDate = startDate,
                 saved_endDate = endDate, saved_userInput = userInput\<rparr>])
      else (Inl ValidationError, store))"
  by (simp add: saveGeneratedNewsletter_def NewsletterSchema_runtime_value Let_def)

theorem save_time_shape_witness:
  "length (suggestedTitles four_titles) = 4 \<and>
   saveGeneratedNewsletter (runtime_value four_titles) [''f1''] 0 5000 None [] =
     (Inl ValidationError, []) \<and>
   length (suggestedTitles five_titles) = 5 \<and>
   saveGeneratedNewsletter (runtime_value five_titles) [''f1''] 0 5000 None [] =
     (Inr \<lparr>newsletter = five_titles, saved_feedIds = [''f1''], saved_startDate = 0,
           saved_endDate = 5000, saved_userInput = None\<rparr>,
      [\<lparr>newsletter = five_titles, saved_feedIds = [''f1''], saved_startDate = 0,
           saved_endDate = 5000, saved_userInput = None\<rparr>])"
  using save_time_shape [of four_titles "[''f1'']" 0 5000 None "[]"]
    save_time_shape [of five_titles "[''f1'']" 0 5000 None "[]"]
  by (simp add: four_titles_def five_titles_def)

end
